theory Spec2Isabelle
  imports Main
begin

section \<open>Strings and dictionaries as the bot uses them\<close>

text \<open>
  Team names are compared through \<^verbatim>\<open>str.lower()\<close> and cleaned with
  \<^verbatim>\<open>str.strip()\<close>. Names are modelled as ASCII strings: \<open>lower\<close> maps the
  letters A-Z to a-z and \<open>strip\<close> removes the ASCII white space Python removes.
\<close>

definition lower_char :: "char \<Rightarrow> char" where
  "lower_char c =
     (let n = (of_char c :: nat) in if 65 \<le> n \<and> n \<le> 90 then char_of (n + 32) else c)"

definition lower :: "string \<Rightarrow> string" where
  "lower s = map lower_char s"

definition is_space :: "char \<Rightarrow> bool" where
  "is_space c = ((of_char c :: nat) \<in> {9, 10, 11, 12, 13, 28, 29, 30, 31, 32})"

definition strip :: "string \<Rightarrow> string" where
  "strip s = rev (dropWhile is_space (rev (dropWhile is_space s)))"

text \<open>
  A Python \<^verbatim>\<open>dict\<close> keeps insertion order, and the bot depends on it (the first
  key that matches case-insensitively wins). A dictionary is an association list in
  insertion order: assigning to a present key keeps its place, assigning to a new key
  appends, \<^verbatim>\<open>pop\<close> removes the key.
\<close>

fun dict_set :: "'k \<Rightarrow> 'v \<Rightarrow> ('k \<times> 'v) list \<Rightarrow> ('k \<times> 'v) list" where
  "dict_set k v [] = [(k, v)]"
| "dict_set k v ((k', v') # d) = (if k' = k then (k, v) # d else (k', v') # dict_set k v d)"

fun dict_pop :: "'k \<Rightarrow> ('k \<times> 'v) list \<Rightarrow> ('k \<times> 'v) list" where
  "dict_pop k [] = []"
| "dict_pop k ((k', v') # d) = (if k' = k then d else (k', v') # dict_pop k d)"

definition dict_get :: "'k \<Rightarrow> 'v \<Rightarrow> ('k \<times> 'v) list \<Rightarrow> 'v" where
  "dict_get k dflt d = (case map_of d k of None \<Rightarrow> dflt | Some v \<Rightarrow> v)"

text \<open>
  \<^verbatim>\<open>for name in d: if name.lower() == team_name: ...; break\<close>: the first item whose
  key matches the normalised team name.
\<close>

fun find_item :: "string \<Rightarrow> (string \<times> 'v) list \<Rightarrow> (string \<times> 'v) option" where
  "find_item tn [] = None"
| "find_item tn ((n, v) # d) = (if lower n = tn then Some (n, v) else find_item tn d)"

text \<open>
  \<^verbatim>\<open>for i, (wl_team, wl_size) in enumerate(waitlist): if wl_team.lower() == team_name:
  ...; break\<close>: name and index of the first waitlist entry of the team, counting
  from \<open>i\<close>.
\<close>

fun find_waitlist :: "string \<Rightarrow> nat \<Rightarrow> (string \<times> int) list \<Rightarrow> (string \<times> nat) option" where
  "find_waitlist tn i [] = None"
| "find_waitlist tn i ((n, sz) # wl) =
     (if lower n = tn then Some (n, i) else find_waitlist tn (Suc i) wl)"

text \<open>\<^verbatim>\<open>waitlist.pop(i)\<close> for an index in range.\<close>

definition list_pop :: "nat \<Rightarrow> 'a list \<Rightarrow> 'a list" where
  "list_pop i xs = take i xs @ drop (Suc i) xs"

section \<open>The two on-disk shapes and \<open>get_team_total_size\<close>\<close>

text \<open>
  A roster value is a bare size (legacy shape) or a dictionary with the optional keys
  \<^verbatim>\<open>size\<close> and \<^verbatim>\<open>id\<close> (current shape). A waitlist entry is a pair
  (legacy) or a triple with the team id (current).
\<close>

datatype team_val = Bare int | Rec "int option" "string option"

datatype wl_entry = Pair2 string int | Triple3 string int string

datatype py_error = AttributeError | ValueError | TypeError

definition using_team_ids :: "(string \<times> team_val) list \<Rightarrow> bool" where
  "using_team_ids d =
     (case d of [] \<Rightarrow> False
      | (n, v) # _ \<Rightarrow> (case v of Rec _ _ \<Rightarrow> True | Bare _ \<Rightarrow> False))"

definition using_waitlist_ids :: "wl_entry list \<Rightarrow> bool" where
  "using_waitlist_ids wl =
     (case wl of [] \<Rightarrow> False
      | e # _ \<Rightarrow> (case e of Triple3 _ _ _ \<Rightarrow> True | Pair2 _ _ \<Rightarrow> False))"

text \<open>
  The roster lookup of \<open>get_team_total_size\<close>. With ids, the matching value is read
  through \<^verbatim>\<open>data.get("size", 0)\<close>, which a bare integer does not have. Without
  ids the value is taken as it is, so a dictionary found there only fails later, when it
  is added to the waitlist size.
\<close>

definition roster_lookup ::
  "string \<Rightarrow> (string \<times> team_val) list \<Rightarrow> py_error + (team_val \<times> string option)" where
  "roster_lookup tn d =
     (case find_item tn d of
        None \<Rightarrow> Inr (Bare 0, None)
      | Some (n, v) \<Rightarrow>
          if using_team_ids d then
            (case v of
               Rec sz tid \<Rightarrow> Inr (Bare (case sz of None \<Rightarrow> 0 | Some x \<Rightarrow> x), Some n)
             | Bare _ \<Rightarrow> Inl AttributeError)
          else Inr (v, Some n))"

text \<open>
  The waitlist scan with ids skips entries shorter than three components; the scan
  without ids unpacks every entry as a pair, which raises on a triple.
\<close>

fun waitlist_scan_ids ::
  "string \<Rightarrow> nat \<Rightarrow> wl_entry list \<Rightarrow> (nat \<times> string \<times> int \<times> string option) list" where
  "waitlist_scan_ids tn i [] = []"
| "waitlist_scan_ids tn i (Triple3 n sz tid # wl) =
     (if lower n = tn then (i, n, sz, Some tid) # waitlist_scan_ids tn (Suc i) wl
      else waitlist_scan_ids tn (Suc i) wl)"
| "waitlist_scan_ids tn i (Pair2 n sz # wl) = waitlist_scan_ids tn (Suc i) wl"

fun waitlist_scan_legacy ::
  "string \<Rightarrow> nat \<Rightarrow> wl_entry list \<Rightarrow> py_error + (nat \<times> string \<times> int \<times> string option) list" where
  "waitlist_scan_legacy tn i [] = Inr []"
| "waitlist_scan_legacy tn i (Pair2 n sz # wl) =
     (case waitlist_scan_legacy tn (Suc i) wl of
        Inl e \<Rightarrow> Inl e
      | Inr r \<Rightarrow> Inr (if lower n = tn then (i, n, sz, None) # r else r))"
| "waitlist_scan_legacy tn i (Triple3 n sz tid # wl) = Inl ValueError"

definition entries_size :: "(nat \<times> string \<times> int \<times> string option) list \<Rightarrow> int" where
  "entries_size es = sum_list (map (\<lambda>(i, n, sz, tid). sz) es)"

text \<open>
  \<open>get_team_total_size\<close> reads the event through its keys \<^verbatim>\<open>teams\<close> and
  \<^verbatim>\<open>waitlist\<close> and returns
  \<open>(event_size, waitlist_size, total_size, registered_name, waitlist_entries)\<close>.
\<close>

definition get_team_total_size ::
  "(string \<times> team_val) list \<Rightarrow> wl_entry list \<Rightarrow> string \<Rightarrow>
   py_error + (int \<times> int \<times> int \<times> string option \<times> (nat \<times> string \<times> int \<times> string option) list)" where
  "get_team_total_size d wl team_name =
     (let tn = lower (strip team_name) in
      case roster_lookup tn d of
        Inl e \<Rightarrow> Inl e
      | Inr (ev_size, registered_name) \<Rightarrow>
          (case (if using_waitlist_ids wl then Inr (waitlist_scan_ids tn 0 wl)
                 else waitlist_scan_legacy tn 0 wl) of
             Inl e \<Rightarrow> Inl e
           | Inr waitlist_entries \<Rightarrow>
               (case ev_size of
                  Rec _ _ \<Rightarrow> Inl TypeError
                | Bare event_size \<Rightarrow>
                    Inr (event_size, entries_size waitlist_entries,
                         event_size + entries_size waitlist_entries,
                         registered_name, waitlist_entries))))"

section \<open>The event store\<close>

text \<open>
  The functions that are bound at module level when the bot runs (the second definitions
  of \<open>update_team_size\<close>, \<open>process_waitlist_after_change\<close> and \<open>admin_add_team\<close>)
  unpack every waitlist entry as a pair and do integer arithmetic on roster values, and
  \<open>create_event_internal\<close> starts from an empty roster and waitlist. The event they
  work on is therefore the legacy shape: sizes in the roster, pairs on the waitlist.
  Times are seconds.
\<close>

record event =
  ev_name :: string
  ev_date :: string
  teams :: "(string \<times> int) list"
  waitlist :: "(string \<times> int) list"
  max_slots :: int
  slots_used :: int
  max_team_size :: int
  expiry_date :: "int option"

record state =
  event_data :: "event option"
  user_team_assignments :: "(string \<times> string) list"

definition bare_teams :: "(string \<times> int) list \<Rightarrow> (string \<times> team_val) list" where
  "bare_teams d = map (\<lambda>(n, sz). (n, Bare sz)) d"

definition pair_waitlist :: "(string \<times> int) list \<Rightarrow> wl_entry list" where
  "pair_waitlist wl = map (\<lambda>(n, sz). Pair2 n sz) wl"

text \<open>
  \<open>get_event\<close>: no event when the store is empty or the event has neither a name nor
  a date.
\<close>

definition get_event :: "state \<Rightarrow> event option" where
  "get_event s =
     (case event_data s of
        None \<Rightarrow> None
      | Some ev \<Rightarrow> if ev_name ev = [] \<and> ev_date ev = [] then None else Some ev)"

section \<open>The waitlist promoter\<close>

text \<open>
  The loop of \<open>process_waitlist_after_change\<close>: the head of the waitlist moves to the
  roster whole when it fits, otherwise the free slots are filled from it and the loop
  ends. \<open>processed\<close> collects \<open>(team_name, moved)\<close>.
\<close>

function process_loop ::
  "int \<Rightarrow> event \<Rightarrow> (string \<times> int) list \<Rightarrow> event \<times> (string \<times> int) list" where
  "process_loop free_slots ev processed =
     (case waitlist ev of
        [] \<Rightarrow> (ev, processed)
      | (team_name, sz) # rest \<Rightarrow>
          if free_slots > 0 then
            if sz \<le> free_slots then
              process_loop (free_slots - sz)
                (ev\<lparr>waitlist := rest,
                    slots_used := slots_used ev + sz,
                    teams := dict_set team_name (dict_get team_name 0 (teams ev) + sz) (teams ev)\<rparr>)
                (processed @ [(team_name, sz)])
            else
              (ev\<lparr>waitlist := (team_name, sz - free_slots) # rest,
                  slots_used := slots_used ev + free_slots,
                  teams := dict_set team_name
                             (dict_get team_name 0 (teams ev) + free_slots) (teams ev)\<rparr>,
               processed @ [(team_name, free_slots)])
          else (ev, processed))"
  by pat_completeness auto
termination
  by (relation "measure (\<lambda>(f, ev, p). length (waitlist ev))") auto

declare process_loop.simps [simp del]

definition process_waitlist_after_change :: "int \<Rightarrow> state \<Rightarrow> state" where
  "process_waitlist_after_change free_slots s =
     (case get_event s of
        None \<Rightarrow> s
      | Some ev \<Rightarrow>
          if free_slots \<le> 0 \<or> waitlist ev = [] then s
          else s\<lparr>event_data := Some (fst (process_loop free_slots ev []))\<rparr>)"

section \<open>\<open>update_team_size\<close>\<close>

text \<open>
  Of the interaction only the user's id and the result of
  \<^verbatim>\<open>has_role(interaction.user, CLAN_REP_ROLE)\<close> matter to the store. Messages,
  log lines and \<open>save_data\<close> do not change the store and are left out. Every caller
  passes the size as an integer, so \<^verbatim>\<open>int(new_size)\<close> does not fail.
\<close>

record interaction =
  user_id :: string
  clan_rep :: bool

text \<open>
  Branch \<^verbatim>\<open>new_size == 0\<close>: the first roster key of the team is popped when
  \<open>event_size > 0\<close>, every waitlist entry and every assignment of the team is
  removed, and the promoter runs with the team's roster size.
\<close>

definition update_unregister :: "string \<Rightarrow> int \<Rightarrow> int \<Rightarrow> event \<Rightarrow> state \<Rightarrow> state" where
  "update_unregister tn event_size waitlist_size ev s =
     (let ev1 = (if event_size > 0 then
                   (case find_item tn (teams ev) of
                      None \<Rightarrow> ev
                    | Some (registered_name, registered_size) \<Rightarrow>
                        ev\<lparr>teams := dict_pop registered_name (teams ev),
                            slots_used := slots_used ev - registered_size\<rparr>)
                 else ev);
          ev2 = (if waitlist_size > 0 then
                   ev1\<lparr>waitlist := filter (\<lambda>(wl_team, wl_size). lower wl_team \<noteq> tn) (waitlist ev1)\<rparr>
                 else ev1);
          s1 = s\<lparr>event_data := Some ev2,
                 user_team_assignments :=
                   filter (\<lambda>(uid, tname). lower tname \<noteq> tn) (user_team_assignments s)\<rparr>
      in if event_size > 0 then process_waitlist_after_change event_size s1 else s1)"

text \<open>
  \<^verbatim>\<open>if registered_team_name: teams[registered_team_name] += n
  else: teams[team_name] = n\<close>, as both increase branches have it.
\<close>

definition roster_add :: "string \<Rightarrow> int \<Rightarrow> (string \<times> int) list \<Rightarrow> (string \<times> int) list" where
  "roster_add tn amount d =
     (case find_item tn d of
        None \<Rightarrow> dict_set tn amount d
      | Some (registered_team_name, v) \<Rightarrow>
          if registered_team_name \<noteq> [] then dict_set registered_team_name (v + amount) d
          else dict_set tn amount d)"

text \<open>
  \<^verbatim>\<open>if waitlist_team_name: waitlist[waitlist_index] = (waitlist_team_name,
  waitlist_size + waitlist_addition) else: waitlist.append((team_name,
  waitlist_addition))\<close>
\<close>

definition waitlist_add ::
  "string \<Rightarrow> int \<Rightarrow> int \<Rightarrow> (string \<times> int) list \<Rightarrow> (string \<times> int) list" where
  "waitlist_add tn waitlist_size waitlist_addition wl =
     (case find_waitlist tn 0 wl of
        None \<Rightarrow> wl @ [(tn, waitlist_addition)]
      | Some (waitlist_team_name, waitlist_index) \<Rightarrow>
          if waitlist_team_name \<noteq> [] then
            wl[waitlist_index := (waitlist_team_name, waitlist_size + waitlist_addition)]
          else wl @ [(tn, waitlist_addition)])"

definition update_increase :: "string \<Rightarrow> int \<Rightarrow> int \<Rightarrow> event \<Rightarrow> event" where
  "update_increase tn size_difference waitlist_size ev =
     (let available_slots = max_slots ev - slots_used ev in
      if size_difference \<le> available_slots then
        ev\<lparr>teams := roster_add tn size_difference (teams ev),
            slots_used := slots_used ev + size_difference\<rparr>
      else
        (let event_addition = available_slots;
             waitlist_addition = size_difference - available_slots
         in ev\<lparr>teams := roster_add tn event_addition (teams ev),
                slots_used := slots_used ev + event_addition,
                waitlist := waitlist_add tn waitlist_size waitlist_addition (waitlist ev)\<rparr>))"

definition waitlist_reduction_of :: "int \<Rightarrow> int \<Rightarrow> int" where
  "waitlist_reduction_of size_difference waitlist_size = min waitlist_size (abs size_difference)"

definition event_reduction_of :: "int \<Rightarrow> int \<Rightarrow> int" where
  "event_reduction_of size_difference waitlist_size =
     abs size_difference - waitlist_reduction_of size_difference waitlist_size"

definition update_decrease :: "string \<Rightarrow> int \<Rightarrow> int \<Rightarrow> int \<Rightarrow> event \<Rightarrow> event" where
  "update_decrease tn size_difference event_size waitlist_size ev =
     (let waitlist_reduction = waitlist_reduction_of size_difference waitlist_size;
          event_reduction = event_reduction_of size_difference waitlist_size;
          ev1 = (case find_waitlist tn 0 (waitlist ev) of
                   None \<Rightarrow> ev
                 | Some (waitlist_team_name, waitlist_index) \<Rightarrow>
                     if waitlist_reduction > 0 \<and> waitlist_team_name \<noteq> [] then
                       (let new_waitlist_size = waitlist_size - waitlist_reduction in
                        if new_waitlist_size > 0 then
                          ev\<lparr>waitlist :=
                                (waitlist ev)[waitlist_index := (waitlist_team_name, new_waitlist_size)]\<rparr>
                        else ev\<lparr>waitlist := list_pop waitlist_index (waitlist ev)\<rparr>)
                     else ev)
      in case find_item tn (teams ev1) of
           None \<Rightarrow> ev1
         | Some (registered_team_name, v) \<Rightarrow>
             if event_reduction > 0 \<and> registered_team_name \<noteq> [] then
               (let new_event_size = event_size - event_reduction in
                if new_event_size > 0 then
                  ev1\<lparr>teams := dict_set registered_team_name new_event_size (teams ev1),
                       slots_used := slots_used ev1 - event_reduction\<rparr>
                else
                  ev1\<lparr>teams := dict_pop registered_team_name (teams ev1),
                       slots_used := slots_used ev1 - v\<rparr>)
             else ev1)"

text \<open>
  The function returns \<open>False\<close> without touching the store when a check fails, and
  \<open>True\<close> with the new store otherwise. \<open>Inl\<close> is an exception of
  \<open>get_team_total_size\<close>.
\<close>

definition update_team_size ::
  "interaction \<Rightarrow> string \<Rightarrow> int \<Rightarrow> bool \<Rightarrow> state \<Rightarrow> py_error + (bool \<times> state)" where
  "update_team_size ia team_name new_size is_admin s =
     (if strip team_name = [] then Inr (False, s)
      else
        let tn = lower (strip team_name) in
        case get_event s of
          None \<Rightarrow> Inr (False, s)
        | Some ev \<Rightarrow>
            if \<not> is_admin \<and> \<not> clan_rep ia then Inr (False, s)
            else if \<not> is_admin \<and>
                    (let user_team = lower (dict_get (user_id ia) [] (user_team_assignments s))
                     in user_team \<noteq> [] \<and> user_team \<noteq> tn) then Inr (False, s)
            else if new_size < 0 then Inr (False, s)
            else if new_size > max_team_size ev \<and> \<not> is_admin then Inr (False, s)
            else
              case get_team_total_size (bare_teams (teams ev)) (pair_waitlist (waitlist ev)) tn of
                Inl e \<Rightarrow> Inl e
              | Inr (event_size, waitlist_size, current_total_size, registered_name, waitlist_entries) \<Rightarrow>
                  let s0 = (if current_total_size = 0 \<and> new_size > 0 then
                              s\<lparr>user_team_assignments :=
                                   dict_set (user_id ia) tn (user_team_assignments s)\<rparr>
                            else s)
                  in
                  if new_size = 0 then
                    Inr (True, update_unregister tn event_size waitlist_size ev s0)
                  else
                    let size_difference = new_size - current_total_size in
                    if size_difference = 0 then Inr (True, s0)
                    else if size_difference > 0 then
                      Inr (True,
                           s0\<lparr>event_data := Some (update_increase tn size_difference waitlist_size ev)\<rparr>)
                    else
                      let s1 = s0\<lparr>event_data :=
                                      Some (update_decrease tn size_difference event_size waitlist_size ev)\<rparr>;
                          event_reduction = event_reduction_of size_difference waitlist_size
                      in Inr (True,
                              if event_reduction > 0 then process_waitlist_after_change event_reduction s1
                              else s1))"

section \<open>The other operations on the store\<close>

text \<open>
  \<open>admin_add_team\<close> checks the name as it was typed against the roster keys and the
  waitlist names, and the size against \<open>max_team_size\<close>. The user it assigns is
  optional; an absent or empty id assigns nobody.
\<close>

definition admin_assign :: "string option \<Rightarrow> string \<Rightarrow> state \<Rightarrow> state" where
  "admin_assign discord_user_id team_name s =
     (case discord_user_id of
        None \<Rightarrow> s
      | Some uid \<Rightarrow>
          if uid \<noteq> [] then
            s\<lparr>user_team_assignments := dict_set uid team_name (user_team_assignments s)\<rparr>
          else s)"

definition admin_add_team ::
  "string \<Rightarrow> int \<Rightarrow> string option \<Rightarrow> bool \<Rightarrow> state \<Rightarrow> bool \<times> state" where
  "admin_add_team team_name sz discord_user_id force_waitlist s =
     (case get_event s of
        None \<Rightarrow> (False, s)
      | Some ev \<Rightarrow>
          if team_name \<in> set (map fst (teams ev)) then (False, s)
          else if team_name \<in> set (map fst (waitlist ev)) then (False, s)
          else if sz \<le> 0 \<or> sz > max_team_size ev then (False, s)
          else
            let available_slots = max_slots ev - slots_used ev;
                ev' = (if force_waitlist then ev\<lparr>waitlist := waitlist ev @ [(team_name, sz)]\<rparr>
                       else if sz \<le> available_slots then
                         ev\<lparr>slots_used := slots_used ev + sz,
                             teams := dict_set team_name sz (teams ev)\<rparr>
                       else if available_slots > 0 then
                         ev\<lparr>slots_used := slots_used ev + available_slots,
                             teams := dict_set team_name available_slots (teams ev),
                             waitlist := waitlist ev @ [(team_name, sz - available_slots)]\<rparr>
                       else ev\<lparr>waitlist := waitlist ev @ [(team_name, sz)]\<rparr>)
            in (True, admin_assign discord_user_id team_name (s\<lparr>event_data := Some ev'\<rparr>)))"

text \<open>
  \<open>/close\<close> and \<open>/open\<close>; \<open>organizer\<close> is the role check of
  \<open>validate_command_context\<close>, \<open>DEFAULT_MAX_SLOTS\<close> comes from the configuration.
\<close>

definition close_command :: "bool \<Rightarrow> state \<Rightarrow> state" where
  "close_command organizer s =
     (case get_event s of
        None \<Rightarrow> s
      | Some ev \<Rightarrow>
          if \<not> organizer then s else s\<lparr>event_data := Some (ev\<lparr>max_slots := slots_used ev\<rparr>)\<rparr>)"

definition open_command :: "int \<Rightarrow> bool \<Rightarrow> state \<Rightarrow> state" where
  "open_command DEFAULT_MAX_SLOTS organizer s =
     (case get_event s of
        None \<Rightarrow> s
      | Some ev \<Rightarrow>
          if \<not> organizer then s
          else
            let s1 = s\<lparr>event_data := Some (ev\<lparr>max_slots := DEFAULT_MAX_SLOTS\<rparr>)\<rparr>;
                new_available_slots = DEFAULT_MAX_SLOTS - slots_used ev
            in if new_available_slots > 0 then process_waitlist_after_change new_available_slots s1
               else s1)"

text \<open>
  \<open>create_event_internal\<close>; \<open>event_date\<close> is the result of \<open>parse_date\<close>, and the
  event expires one day after it.
\<close>

definition create_event_internal ::
  "int \<Rightarrow> int \<Rightarrow> string \<Rightarrow> string \<Rightarrow> int option \<Rightarrow> state \<Rightarrow> state" where
  "create_event_internal DEFAULT_MAX_SLOTS DEFAULT_MAX_TEAM_SIZE nm dt event_date s =
     (case get_event s of
        Some ev \<Rightarrow> s
      | None \<Rightarrow>
          (case event_date of
             None \<Rightarrow> s
           | Some d \<Rightarrow>
               s\<lparr>event_data :=
                    Some \<lparr>ev_name = nm, ev_date = dt, teams = [], waitlist = [],
                          max_slots = DEFAULT_MAX_SLOTS, slots_used = 0,
                          max_team_size = DEFAULT_MAX_TEAM_SIZE,
                          expiry_date = Some (d + 86400)\<rparr>\<rparr>))"

text \<open>
  One pass of the background task \<open>check_waitlist_and_expiry\<close> at time \<open>now\<close>: an
  expired event is dropped with \<^verbatim>\<open>event_data.clear()\<close>; otherwise whole teams
  move up from the head of the waitlist while they fit.
\<close>

function sweep_loop :: "int \<Rightarrow> event \<Rightarrow> event" where
  "sweep_loop available_slots ev =
     (case waitlist ev of
        [] \<Rightarrow> ev
      | (team_name, sz) # rest \<Rightarrow>
          if available_slots > 0 \<and> sz \<le> available_slots then
            sweep_loop (available_slots - sz)
              (ev\<lparr>waitlist := rest,
                  slots_used := slots_used ev + sz,
                  teams := dict_set team_name (dict_get team_name 0 (teams ev) + sz) (teams ev)\<rparr>)
          else ev)"
  by pat_completeness auto
termination
  by (relation "measure (\<lambda>(f, ev). length (waitlist ev))") auto

declare sweep_loop.simps [simp del]

definition check_waitlist_and_expiry :: "int \<Rightarrow> state \<Rightarrow> state" where
  "check_waitlist_and_expiry now s =
     (case get_event s of
        None \<Rightarrow> s
      | Some ev \<Rightarrow>
          (case expiry_date ev of
             None \<Rightarrow> s
           | Some expiry \<Rightarrow>
               if now > expiry then s\<lparr>event_data := None\<rparr>
               else if slots_used ev < max_slots ev \<and> waitlist ev \<noteq> [] then
                 s\<lparr>event_data := Some (sweep_loop (max_slots ev - slots_used ev) ev)\<rparr>
               else s))"

section \<open>Notions used to state the properties\<close>

text \<open>
  The roster size of a team is the value of the first roster key that matches its
  normalised name; its waitlist size is the sum over all its waitlist entries. These are
  the first two components \<open>get_team_total_size\<close> returns on a legacy event.
\<close>

definition roster_size :: "string \<Rightarrow> (string \<times> int) list \<Rightarrow> int" where
  "roster_size tn d = (case find_item tn d of None \<Rightarrow> 0 | Some (n, v) \<Rightarrow> v)"

definition waitlist_total :: "string \<Rightarrow> (string \<times> int) list \<Rightarrow> int" where
  "waitlist_total tn wl = sum_list (map snd (filter (\<lambda>(n, sz). lower n = tn) wl))"

fun legacy_entries ::
  "string \<Rightarrow> nat \<Rightarrow> (string \<times> int) list \<Rightarrow> (nat \<times> string \<times> int \<times> string option) list" where
  "legacy_entries tn i [] = []"
| "legacy_entries tn i ((n, sz) # wl) =
     (if lower n = tn then (i, n, sz, None) # legacy_entries tn (Suc i) wl
      else legacy_entries tn (Suc i) wl)"

text \<open>
  None of the early returns of \<open>update_team_size\<close> fires: the name is not blank, an
  event is active, the requester is an admin or a clan representative who is assigned to
  no other team, and the size is within bounds.
\<close>

definition checks_pass :: "interaction \<Rightarrow> string \<Rightarrow> int \<Rightarrow> bool \<Rightarrow> state \<Rightarrow> bool" where
  "checks_pass ia team_name new_size is_admin s =
     (strip team_name \<noteq> [] \<and>
      (case get_event s of
         None \<Rightarrow> False
       | Some ev \<Rightarrow>
           (is_admin \<or>
            (clan_rep ia \<and>
             (lower (dict_get (user_id ia) [] (user_team_assignments s)) = [] \<or>
              lower (dict_get (user_id ia) [] (user_team_assignments s)) = lower (strip team_name)))) \<and>
           0 \<le> new_size \<and> (new_size \<le> max_team_size ev \<or> is_admin)))"

text \<open>
  The promoter as the specification words it: serve the head of the queue; a head that
  fits is popped whole and recorded, a head that does not fit is cut by what is left and
  ends the run. The result is the remaining waitlist and the recorded moves.
\<close>

fun promote_spec ::
  "int \<Rightarrow> (string \<times> int) list \<Rightarrow> (string \<times> int) list \<times> (string \<times> int) list" where
  "promote_spec freed [] = ([], [])"
| "promote_spec freed ((n, sz) # rest) =
     (if freed \<le> 0 then ((n, sz) # rest, [])
      else if sz \<le> freed then
        (fst (promote_spec (freed - sz) rest), (n, sz) # snd (promote_spec (freed - sz) rest))
      else ((n, sz - freed) # rest, [(n, freed)]))"

text \<open>
  The roster entry of a team as the specification words it. A team is identified by its
  name without regard to case, and the roster keeps the spelling of the first writer: a
  move of \<open>k\<close> members of the team named \<open>n\<close> adds \<open>k\<close> to the first roster
  entry whose key equals \<open>n\<close> up to case, and creates the entry \<open>n \<mapsto> k\<close> when the
  team has none. The recorded moves are applied in order.
\<close>

fun roster_entry_add_spec :: "string \<Rightarrow> int \<Rightarrow> (string \<times> int) list \<Rightarrow> (string \<times> int) list" where
  "roster_entry_add_spec n k [] = [(n, k)]"
| "roster_entry_add_spec n k ((m, v) # d) =
     (if lower m = lower n then (m, v + k) # d else (m, v) # roster_entry_add_spec n k d)"

fun roster_after_moves_spec ::
  "(string \<times> int) list \<Rightarrow> (string \<times> int) list \<Rightarrow> (string \<times> int) list" where
  "roster_after_moves_spec [] d = d"
| "roster_after_moves_spec ((n, k) # ms) d =
     roster_after_moves_spec ms (roster_entry_add_spec n k d)"

text \<open>No two of the names differ only in case.\<close>

definition names_agree :: "string list \<Rightarrow> bool" where
  "names_agree ns = (\<forall>a\<in>set ns. \<forall>b\<in>set ns. lower a = lower b \<longrightarrow> a = b)"

text \<open>
  The same teams written in the legacy and in the current shape: \<open>(name, size, id)\<close>
  becomes a bare size or a \<open>{size, id}\<close> dictionary in the roster, a pair or a triple
  on the waitlist.
\<close>

definition legacy_roster :: "(string \<times> int \<times> string) list \<Rightarrow> (string \<times> team_val) list" where
  "legacy_roster ts = map (\<lambda>(n, sz, tid). (n, Bare sz)) ts"

definition current_roster :: "(string \<times> int \<times> string) list \<Rightarrow> (string \<times> team_val) list" where
  "current_roster ts = map (\<lambda>(n, sz, tid). (n, Rec (Some sz) (Some tid))) ts"

definition legacy_waitlist :: "(string \<times> int \<times> string) list \<Rightarrow> wl_entry list" where
  "legacy_waitlist ws = map (\<lambda>(n, sz, tid). Pair2 n sz) ws"

definition current_waitlist :: "(string \<times> int \<times> string) list \<Rightarrow> wl_entry list" where
  "current_waitlist ws = map (\<lambda>(n, sz, tid). Triple3 n sz tid) ws"

definition sizes_of ::
  "py_error + (int \<times> int \<times> int \<times> string option \<times> (nat \<times> string \<times> int \<times> string option) list)
   \<Rightarrow> (int \<times> int \<times> int) option" where
  "sizes_of r =
     (case r of Inl e \<Rightarrow> None
      | Inr (event_size, waitlist_size, total_size, registered_name, waitlist_entries) \<Rightarrow>
          Some (event_size, waitlist_size, total_size))"

text \<open>
  The invariant of the store: the slot counter is the sum of the roster, it lies between
  zero and the capacity, the capacity never exceeds the configured default, no roster
  size is negative and every waitlist size is positive.
\<close>

definition event_inv :: "int \<Rightarrow> event \<Rightarrow> bool" where
  "event_inv DEFAULT_MAX_SLOTS ev =
     (slots_used ev = sum_list (map snd (teams ev)) \<and>
      0 \<le> slots_used ev \<and> slots_used ev \<le> max_slots ev \<and>
      max_slots ev \<le> DEFAULT_MAX_SLOTS \<and>
      list_all (\<lambda>(n, sz). 0 \<le> sz) (teams ev) \<and>
      list_all (\<lambda>(n, sz). 0 < sz) (waitlist ev))"

definition state_inv :: "int \<Rightarrow> state \<Rightarrow> bool" where
  "state_inv DEFAULT_MAX_SLOTS s =
     (case event_data s of None \<Rightarrow> True | Some ev \<Rightarrow> event_inv DEFAULT_MAX_SLOTS ev)"

text \<open>
  The stores reachable from the creation of an event by the operations of the bot.
  \<open>D\<close> and \<open>M\<close> are the configured \<open>DEFAULT_MAX_SLOTS\<close> and
  \<open>DEFAULT_MAX_TEAM_SIZE\<close>.
\<close>

inductive reachable :: "int \<Rightarrow> int \<Rightarrow> state \<Rightarrow> bool" for D M :: int where
  created:
    "reachable D M
       (create_event_internal D M nm dt (Some d) \<lparr>event_data = None, user_team_assignments = asg\<rparr>)"
| set_team_size:
    "reachable D M s \<Longrightarrow> update_team_size ia team_name new_size is_admin s = Inr (ok, s') \<Longrightarrow>
     reachable D M s'"
| add_team:
    "reachable D M s \<Longrightarrow> admin_add_team team_name sz uid force_waitlist s = (ok, s') \<Longrightarrow>
     reachable D M s'"
| promotion:
    "reachable D M s \<Longrightarrow> reachable D M (check_waitlist_and_expiry now s)"
| close_registration:
    "reachable D M s \<Longrightarrow> reachable D M (close_command organizer s)"
| open_registration:
    "reachable D M s \<Longrightarrow> reachable D M (open_command D organizer s)"
| recreated:
    "reachable D M s \<Longrightarrow> reachable D M (create_event_internal D M nm dt event_date s)"

section \<open>Example stores\<close>

text \<open>A full event: twenty slots, all taken by three teams.\<close>

definition full_event :: event where
  "full_event =
     \<lparr>ev_name = ''cup'', ev_date = ''01.01.2030'',
      teams = [(''x'', 9), (''y'', 9), (''z'', 2)], waitlist = [],
      max_slots = 20, slots_used = 20, max_team_size = 9, expiry_date = Some 1000\<rparr>"

text \<open>Twenty slots with eighteen taken.\<close>

definition nearly_full_event :: event where
  "nearly_full_event =
     \<lparr>ev_name = ''cup'', ev_date = ''01.01.2030'',
      teams = [(''x'', 9), (''y'', 9)], waitlist = [],
      max_slots = 20, slots_used = 18, max_team_size = 9, expiry_date = Some 1000\<rparr>"

definition rep :: interaction where
  "rep = \<lparr>user_id = ''7'', clan_rep = True\<rparr>"

text \<open>Sixteen of twenty slots taken, two teams waiting.\<close>

definition fifo_event :: event where
  "fifo_event =
     \<lparr>ev_name = ''cup'', ev_date = ''01.01.2030'',
      teams = [(''x'', 16)], waitlist = [(''A'', 5), (''B'', 3)],
      max_slots = 20, slots_used = 16, max_team_size = 9, expiry_date = Some 1000\<rparr>"

definition full_store :: state where
  "full_store = \<lparr>event_data = Some full_event, user_team_assignments = []\<rparr>"

text \<open>
  The store after a clan representative has registered team Alpha with five members on
  the full event, and the same store after an admin has also put "Alpha" on the waitlist.
\<close>

definition waiting_event :: event where
  "waiting_event =
     \<lparr>ev_name = ''cup'', ev_date = ''01.01.2030'',
      teams = [(''x'', 9), (''y'', 9), (''z'', 2), (''alpha'', 0)], waitlist = [(''alpha'', 5)],
      max_slots = 20, slots_used = 20, max_team_size = 9, expiry_date = Some 1000\<rparr>"

definition waiting_store :: state where
  "waiting_store =
     \<lparr>event_data = Some waiting_event, user_team_assignments = [(''7'', ''alpha'')]\<rparr>"

definition two_entry_store :: state where
  "two_entry_store =
     \<lparr>event_data = Some (waiting_event\<lparr>waitlist := [(''alpha'', 5), (''Alpha'', 3)]\<rparr>),
      user_team_assignments = [(''7'', ''alpha'')]\<rparr>"

text \<open>Team Bravo with six members in the roster and nobody waiting.\<close>

definition bravo_event :: event where
  "bravo_event =
     \<lparr>ev_name = ''cup'', ev_date = ''01.01.2030'',
      teams = [(''x'', 9), (''bravo'', 6)], waitlist = [],
      max_slots = 20, slots_used = 15, max_team_size = 9, expiry_date = Some 1000\<rparr>"

definition bravo_store :: state where
  "bravo_store = \<lparr>event_data = Some bravo_event, user_team_assignments = [(''7'', ''bravo'')]\<rparr>"

definition nearly_full_store :: state where
  "nearly_full_store = \<lparr>event_data = Some nearly_full_event, user_team_assignments = []\<rparr>"

text \<open>A fresh event on which team Alpha has registered five members.\<close>

definition registered_event :: event where
  "registered_event =
     \<lparr>ev_name = ''cup'', ev_date = ''01.01.2030'',
      teams = [(''alpha'', 5)], waitlist = [],
      max_slots = 20, slots_used = 5, max_team_size = 9, expiry_date = Some 86400\<rparr>"

definition registered_store :: state where
  "registered_store =
     \<lparr>event_data = Some registered_event, user_team_assignments = [(''7'', ''alpha'')]\<rparr>"

text \<open>Team tango with four members in the roster and three waiting, ahead of team b.\<close>

definition both_event :: event where
  "both_event =
     \<lparr>ev_name = ''cup'', ev_date = ''01.01.2030'',
      teams = [(''x'', 16), (''tango'', 4)], waitlist = [(''tango'', 3), (''b'', 6)],
      max_slots = 20, slots_used = 20, max_team_size = 9, expiry_date = Some 1000\<rparr>"

definition both_store :: state where
  "both_store = \<lparr>event_data = Some both_event, user_team_assignments = [(''7'', ''tango'')]\<rparr>"

text \<open>
  Team alpha holds two roster slots under the key \<open>alpha\<close>, and an admin has put three
  more of its members on the waitlist under the spelling \<open>Alpha\<close>.
  \<open>variant_full_store\<close> is that store while the event is full, \<open>variant_store\<close> is
  the store the promoter works on once team x has given up three slots, and
  \<open>same_case_store\<close> has the waitlist entry in the spelling of the roster.
\<close>

definition variant_event :: event where
  "variant_event =
     \<lparr>ev_name = ''cup'', ev_date = ''01.01.2030'',
      teams = [(''x'', 15), (''alpha'', 2)], waitlist = [(''Alpha'', 3)],
      max_slots = 20, slots_used = 17, max_team_size = 9, expiry_date = Some 86400\<rparr>"

definition variant_store :: state where
  "variant_store =
     \<lparr>event_data = Some variant_event,
      user_team_assignments = [(''1'', ''x''), (''7'', ''alpha'')]\<rparr>"

definition same_case_store :: state where
  "same_case_store =
     \<lparr>event_data = Some (variant_event\<lparr>waitlist := [(''alpha'', 3)]\<rparr>),
      user_team_assignments = [(''1'', ''x''), (''7'', ''alpha'')]\<rparr>"

definition variant_full_store :: state where
  "variant_full_store =
     \<lparr>event_data = Some (variant_event\<lparr>teams := [(''x'', 18), (''alpha'', 2)], slots_used := 20\<rparr>),
      user_team_assignments = [(''1'', ''x''), (''7'', ''alpha'')]\<rparr>"

definition admin :: interaction where
  "admin = \<lparr>user_id = ''1'', clan_rep = False\<rparr>"

section \<open>Strings\<close>

lemma lower_char_idem: "lower_char (lower_char c) = lower_char c"
  unfolding lower_char_def Let_def by auto

lemma lower_idem: "lower (lower s) = lower s"
  by (simp add: lower_def lower_char_idem)

lemma lower_Nil_iff: "lower s = [] \<longleftrightarrow> s = []"
  by (simp add: lower_def)

lemma is_space_lower_char: "is_space (lower_char c) = is_space c"
  unfolding lower_char_def is_space_def Let_def by auto

lemma dropWhile_lower: "dropWhile is_space (lower s) = lower (dropWhile is_space s)"
  by (induction s) (auto simp: lower_def is_space_lower_char)

lemma rev_lower: "rev (lower s) = lower (rev s)"
  by (simp add: lower_def rev_map)

lemma strip_lower: "strip (lower s) = lower (strip s)"
  by (simp add: strip_def dropWhile_lower rev_lower)

lemma dropWhile_rev_dropWhile:
  "dropWhile P (rev (dropWhile P (rev (dropWhile P s)))) = rev (dropWhile P (rev (dropWhile P s)))"
proof (cases "dropWhile P (rev (dropWhile P s)) = []")
  case True
  show ?thesis unfolding True by simp
next
  case False
  let ?A = "dropWhile P s"
  let ?B = "dropWhile P (rev ?A)"
  have A: "?A \<noteq> []"
  proof
    assume a: "?A = []"
    have "?B = []" unfolding a by simp
    with False show False by blast
  qed
  have "rev ?A = takeWhile P (rev ?A) @ ?B" by simp
  then have "last (rev ?A) = last ?B" using False by (metis last_appendR)
  then have "last ?B = hd ?A" using A by (simp add: last_rev)
  moreover have "\<not> P (hd ?A)" using A by (rule hd_dropWhile)
  ultimately have "\<not> P (hd (rev ?B))" using False by (simp add: hd_rev)
  then show ?thesis using False by (cases "rev ?B") auto
qed

lemma strip_idem: "strip (strip s) = strip s"
  by (simp add: strip_def dropWhile_rev_dropWhile)

lemma normalise_idem: "lower (strip (lower (strip s))) = lower (strip s)"
  by (simp add: strip_lower strip_idem lower_idem)

section \<open>\<open>get_team_total_size\<close> on the two shapes\<close>

lemma using_team_ids_bare: "using_team_ids (bare_teams d) = False"
  by (cases d) (auto simp: using_team_ids_def bare_teams_def)

lemma using_waitlist_ids_pair: "using_waitlist_ids (pair_waitlist wl) = False"
  by (cases wl) (auto simp: using_waitlist_ids_def pair_waitlist_def)

lemma find_item_bare:
  "find_item tn (bare_teams d) = map_option (\<lambda>(n, v). (n, Bare v)) (find_item tn d)"
  by (induction d) (auto simp: bare_teams_def)

lemma scan_legacy_pair:
  "waitlist_scan_legacy tn i (pair_waitlist wl) = Inr (legacy_entries tn i wl)"
  by (induction wl arbitrary: i) (auto simp: pair_waitlist_def)

lemma entries_size_legacy: "entries_size (legacy_entries tn i wl) = waitlist_total tn wl"
  by (induction wl arbitrary: i) (auto simp: entries_size_def waitlist_total_def)

lemma get_team_total_size_legacy:
  assumes "lower (strip q) = tn"
  shows "get_team_total_size (bare_teams d) (pair_waitlist wl) q =
         Inr (roster_size tn d, waitlist_total tn wl, roster_size tn d + waitlist_total tn wl,
              map_option fst (find_item tn d), legacy_entries tn 0 wl)"
  using assms
  by (auto simp: get_team_total_size_def roster_lookup_def find_item_bare using_team_ids_bare
        using_waitlist_ids_pair scan_legacy_pair entries_size_legacy roster_size_def
        split: option.splits)

section \<open>The promoter\<close>

lemma get_event_Some: "get_event s = Some ev \<Longrightarrow> event_data s = Some ev"
  by (auto simp: get_event_def split: option.splits if_splits)

text \<open>
  The queue side of the loop holds on every event: the waitlist that is left, the slot
  counter and the recorded moves are those of the head-first procedure.
\<close>

lemma process_loop_queue:
  "waitlist (fst (process_loop freed ev pr)) = fst (promote_spec freed (waitlist ev)) \<and>
   slots_used (fst (process_loop freed ev pr)) =
     slots_used ev + sum_list (map snd (snd (promote_spec freed (waitlist ev)))) \<and>
   snd (process_loop freed ev pr) = pr @ snd (promote_spec freed (waitlist ev))"
proof (induction freed ev pr rule: process_loop.induct)
  case (1 free_slots ev processed)
  show ?case
  proof (cases "waitlist ev")
    case Nil
    then show ?thesis by (subst (1 2 3) process_loop.simps) simp
  next
    case (Cons e rest)
    obtain n sz where e: "e = (n, sz)" by (cases e)
    show ?thesis
    proof (cases "free_slots > 0")
      case False
      then show ?thesis using Cons e by (subst (1 2 3) process_loop.simps) simp
    next
      case pos: True
      show ?thesis
      proof (cases "sz \<le> free_slots")
        case True
        then show ?thesis
          using Cons e pos "1.IH"[OF Cons[unfolded e] refl pos True]
          by (subst (1 2 3) process_loop.simps) (simp add: add.assoc)
      next
        case False
        then show ?thesis using Cons e pos by (subst (1 2 3) process_loop.simps) simp
      qed
    qed
  qed
qed

lemma process_loop_rest:
  "ev_name (fst (process_loop freed ev pr)) = ev_name ev \<and>
   ev_date (fst (process_loop freed ev pr)) = ev_date ev \<and>
   max_slots (fst (process_loop freed ev pr)) = max_slots ev \<and>
   max_team_size (fst (process_loop freed ev pr)) = max_team_size ev \<and>
   expiry_date (fst (process_loop freed ev pr)) = expiry_date ev \<and>
   event.more (fst (process_loop freed ev pr)) = event.more ev"
proof (induction freed ev pr rule: process_loop.induct)
  case (1 free_slots ev processed)
  show ?case
  proof (cases "waitlist ev")
    case Nil
    then show ?thesis by (subst (1 2 3 4 5 6) process_loop.simps) simp
  next
    case (Cons e rest)
    obtain n sz where e: "e = (n, sz)" by (cases e)
    show ?thesis
    proof (cases "free_slots > 0")
      case False
      then show ?thesis using Cons e by (subst (1 2 3 4 5 6) process_loop.simps) simp
    next
      case pos: True
      show ?thesis
      proof (cases "sz \<le> free_slots")
        case True
        then show ?thesis
          using Cons e pos "1.IH"[OF Cons[unfolded e] refl pos True]
          by (subst (1 2 3 4 5 6) process_loop.simps) simp
      next
        case False
        then show ?thesis using Cons e pos by (subst (1 2 3 4 5 6) process_loop.simps) simp
      qed
    qed
  qed
qed

lemma promote_spec_fifo:
  "map fst (snd (promote_spec freed wl)) =
   take (length (snd (promote_spec freed wl))) (map fst wl)"
  by (induction wl arbitrary: freed) auto

text \<open>
  The roster side. The loop reads and writes the roster under the exact name of the
  waitlist entry. That is the roster entry of the team when no roster key differs from
  the name only in case.
\<close>

lemma dict_set_keys: "set (map fst (dict_set n v d)) = insert n (set (map fst d))"
proof (induction d)
  case Nil
  show ?case by simp
next
  case (Cons a d)
  obtain m w where a: "a = (m, w)" by (cases a)
  show ?case using Cons.IH a by (cases "m = n") auto
qed

lemma names_agreeD:
  "names_agree ns \<Longrightarrow> a \<in> set ns \<Longrightarrow> b \<in> set ns \<Longrightarrow> lower a = lower b \<Longrightarrow> a = b"
  unfolding names_agree_def by blast

lemma names_agree_subset: "names_agree ns \<Longrightarrow> set ms \<subseteq> set ns \<Longrightarrow> names_agree ms"
  unfolding names_agree_def by blast

lemma exact_key_is_roster_entry:
  assumes "\<And>m. m \<in> set (map fst d) \<Longrightarrow> lower m = lower n \<Longrightarrow> m = n"
  shows "dict_set n (dict_get n 0 d + k) d = roster_entry_add_spec n k d"
  using assms
proof (induction d)
  case Nil
  then show ?case by (simp add: dict_get_def)
next
  case (Cons a d)
  obtain m v where a: "a = (m, v)" by (cases a)
  show ?case
  proof (cases "m = n")
    case True
    then show ?thesis using a by (simp add: dict_get_def)
  next
    case False
    then have ne: "lower m \<noteq> lower n" using Cons.prems[of m] a by auto
    have g: "dict_get n 0 (a # d) = dict_get n 0 d" using False a by (simp add: dict_get_def)
    have "dict_set n (dict_get n 0 d + k) d = roster_entry_add_spec n k d"
      by (rule Cons.IH) (use Cons.prems in auto)
    then show ?thesis using False ne a g by simp
  qed
qed

lemma process_loop_roster:
  assumes "names_agree (map fst (teams ev) @ map fst (waitlist ev))"
  shows "teams (fst (process_loop freed ev pr)) =
         roster_after_moves_spec (snd (promote_spec freed (waitlist ev))) (teams ev)"
  using assms
proof (induction freed ev pr rule: process_loop.induct)
  case (1 free_slots ev processed)
  show ?case
  proof (cases "waitlist ev")
    case Nil
    then show ?thesis by (subst process_loop.simps) simp
  next
    case (Cons e rest)
    obtain n sz where e: "e = (n, sz)" by (cases e)
    have w: "waitlist ev = (n, sz) # rest" using Cons e by simp
    have k: "m = n" if "m \<in> set (map fst (teams ev))" and "lower m = lower n" for m
    proof (rule names_agreeD[OF "1.prems" _ _ that(2)])
      show "m \<in> set (map fst (teams ev) @ map fst (waitlist ev))" using that(1) by simp
      show "n \<in> set (map fst (teams ev) @ map fst (waitlist ev))" using w by simp
    qed
    have eq: "\<And>k. dict_set n (dict_get n 0 (teams ev) + k) (teams ev) =
                   roster_entry_add_spec n k (teams ev)"
      by (rule exact_key_is_roster_entry[OF k])
    show ?thesis
    proof (cases "free_slots > 0")
      case False
      then show ?thesis using w by (subst process_loop.simps) simp
    next
      case pos: True
      show ?thesis
      proof (cases "sz \<le> free_slots")
        case True
        let ?ev = "ev\<lparr>waitlist := rest, slots_used := slots_used ev + sz,
                       teams := dict_set n (dict_get n 0 (teams ev) + sz) (teams ev)\<rparr>"
        have sub: "set (map fst (teams ?ev) @ map fst (waitlist ?ev)) \<subseteq>
                   set (map fst (teams ev) @ map fst (waitlist ev))"
          using dict_set_keys[of n "dict_get n 0 (teams ev) + sz" "teams ev"] w by auto
        have na: "names_agree (map fst (teams ?ev) @ map fst (waitlist ?ev))"
          by (rule names_agree_subset[OF "1.prems" sub])
        have "teams (fst (process_loop (free_slots - sz) ?ev (processed @ [(n, sz)]))) =
              roster_after_moves_spec (snd (promote_spec (free_slots - sz) (waitlist ?ev))) (teams ?ev)"
          by (rule "1.IH"[OF w refl pos True na])
        then show ?thesis
          using w pos True eq by (subst process_loop.simps) simp
      next
        case False
        then show ?thesis using w pos eq by (subst process_loop.simps) simp
      qed
    qed
  qed
qed

text \<open>
  On a store in which no two names of the roster and the waitlist differ only in case,
  the promoter does what the specification says: it leaves the waitlist, the roster and
  the slot counter of the head-first procedure, every moved amount added to the roster
  entry of its team.
\<close>

lemma promoter_follows_spec_when_names_agree:
  assumes "get_event s = Some ev" and "0 < freed"
    and "names_agree (map fst (teams ev) @ map fst (waitlist ev))"
  shows "process_waitlist_after_change freed s =
         s\<lparr>event_data :=
              Some (ev\<lparr>waitlist := fst (promote_spec freed (waitlist ev)),
                       teams := roster_after_moves_spec (snd (promote_spec freed (waitlist ev))) (teams ev),
                       slots_used := slots_used ev +
                         sum_list (map snd (snd (promote_spec freed (waitlist ev))))\<rparr>)\<rparr>"
proof (cases "waitlist ev = []")
  case True
  have e: "ev\<lparr>waitlist := []\<rparr> = ev"
    using True by (cases ev) simp
  have "s\<lparr>event_data := Some ev\<rparr> = s"
    using get_event_Some[OF assms(1)] by simp
  then have r: "s\<lparr>event_data := Some (ev\<lparr>waitlist := []\<rparr>)\<rparr> = s"
    unfolding e .
  have l: "process_waitlist_after_change freed s = s"
    using assms True by (simp add: process_waitlist_after_change_def)
  show ?thesis
    unfolding l using True r by simp
next
  case False
  have "fst (process_loop freed ev []) =
          ev\<lparr>waitlist := fst (promote_spec freed (waitlist ev)),
             teams := roster_after_moves_spec (snd (promote_spec freed (waitlist ev))) (teams ev),
             slots_used := slots_used ev +
               sum_list (map snd (snd (promote_spec freed (waitlist ev))))\<rparr>"
    using process_loop_queue[of freed ev "[]"] process_loop_roster[OF assms(3), of freed "[]"]
      process_loop_rest[of freed ev "[]"]
    by (intro event.equality) simp_all
  then show ?thesis
    using assms False by (simp add: process_waitlist_after_change_def)
qed

text \<open>
  With the waitlist \<open>[(A, 5), (B, 3)]\<close> and four freed slots, four members of A move
  and the waitlist becomes \<open>[(A, 1), (B, 3)]\<close>; B does not move.
\<close>

lemma promoter_fifo_example:
  "process_waitlist_after_change 4 \<lparr>event_data = Some fifo_event, user_team_assignments = []\<rparr> =
     \<lparr>event_data = Some (fifo_event\<lparr>waitlist := [(''A'', 1), (''B'', 3)],
                                    teams := [(''x'', 16), (''A'', 4)],
                                    slots_used := 20\<rparr>),
      user_team_assignments = []\<rparr>"
  by code_simp

text \<open>
  C2. The promoter serves the waitlist strictly from its head: a head entry that fits is
  popped whole, a larger one is cut in place by the capacity left, and in both cases the
  moved members are added to that team's roster entry and to \<open>slots_used\<close>. The code
  keeps the order of the queue on every store, but it reads and writes the roster under
  the exact spelling of the waitlist entry, where a team is the same team whatever the
  case of its name (and \<open>get_team_total_size\<close> finds its roster entry that way). With
  the roster \<open>x \<mapsto> 15, alpha \<mapsto> 2\<close>, the waitlist \<open>[(Alpha, 3)]\<close> and three freed
  slots, the three members are not added to the roster entry of the team: the promoter
  creates a second key \<open>Alpha \<mapsto> 3\<close>, where the specification gives \<open>alpha \<mapsto> 5\<close>.
  Before the call \<open>get_team_total_size\<close> reports two members in the roster, three
  waiting and five in all; after it, two in the roster, none waiting and two in all,
  while all twenty slots are taken. With the waitlist entry spelled \<open>alpha\<close> the same
  call gives \<open>alpha \<mapsto> 5\<close>.
\<close>

theorem promoter_splits_team_across_keys:
  "process_waitlist_after_change 3 variant_store =
     variant_store\<lparr>event_data :=
       Some (variant_event\<lparr>waitlist := [],
                           teams := [(''x'', 15), (''alpha'', 2), (''Alpha'', 3)],
                           slots_used := 20\<rparr>)\<rparr> \<and>
   roster_after_moves_spec (snd (promote_spec 3 (waitlist variant_event))) (teams variant_event) =
     [(''x'', 15), (''alpha'', 5)] \<and>
   sizes_of (get_team_total_size (bare_teams (teams variant_event))
               (pair_waitlist (waitlist variant_event)) ''Alpha'') = Some (2, 3, 5) \<and>
   sizes_of (get_team_total_size (bare_teams [(''x'', 15), (''alpha'', 2), (''Alpha'', 3)])
               (pair_waitlist []) ''Alpha'') = Some (2, 0, 2) \<and>
   process_waitlist_after_change 3 same_case_store =
     same_case_store\<lparr>event_data :=
       Some (variant_event\<lparr>waitlist := [], teams := [(''x'', 15), (''alpha'', 5)],
                           slots_used := 20\<rparr>)\<rparr>"
  by code_simp

text \<open>
  The store with the two spellings is reached by the commands of the bot: an admin sets
  team x to eighteen members on a new event, a clan representative registers Alpha with
  two, and \<open>admin_add_team\<close>, which compares the name as it was typed, puts
  \<open>(Alpha, 3)\<close> on the waitlist of the full event. When the admin then shrinks team x
  to fifteen, \<open>update_team_size\<close> runs the promoter with three freed slots on
  \<open>variant_store\<close>.
\<close>

lemma variant_full_store_reachable: "reachable 20 9 variant_full_store"
proof -
  let ?s0 = "create_event_internal 20 9 ''cup'' ''01.01.2030'' (Some 0)
               \<lparr>event_data = None, user_team_assignments = []\<rparr>"
  let ?s1 = "\<lparr>event_data = Some (variant_event\<lparr>teams := [(''x'', 18)], waitlist := [],
                                                slots_used := 18\<rparr>),
              user_team_assignments = [(''1'', ''x'')]\<rparr>"
  let ?s2 = "\<lparr>event_data = Some (variant_event\<lparr>teams := [(''x'', 18), (''alpha'', 2)],
                                                waitlist := [], slots_used := 20\<rparr>),
              user_team_assignments = [(''1'', ''x''), (''7'', ''alpha'')]\<rparr>"
  have a: "update_team_size admin ''x'' 18 True ?s0 = Inr (True, ?s1)" by code_simp
  have b: "update_team_size rep ''Alpha'' 2 False ?s1 = Inr (True, ?s2)" by code_simp
  have c: "admin_add_team ''Alpha'' 3 None False ?s2 = (True, variant_full_store)" by code_simp
  have "reachable 20 9 ?s1" by (rule reachable.set_team_size[OF reachable.created a])
  then have "reachable 20 9 ?s2" by (rule reachable.set_team_size[OF _ b])
  then show ?thesis by (rule reachable.add_team[OF _ c])
qed

lemma decrease_calls_promoter_on_variant_store:
  "update_team_size admin ''x'' 15 True variant_full_store =
     Inr (True, process_waitlist_after_change 3 variant_store)"
  by code_simp

section \<open>Evaluations of the update on concrete stores\<close>

text \<open>
  C7. No roster or waitlist entry has size \<open>\<le> 0\<close>; a registration that arrives while
  the event is full goes to the waitlist as a whole. On the full event the code stores
  the roster entry \<open>alpha \<mapsto> 0\<close> beside the waitlist entry \<open>(alpha, 5)\<close>: the branch
  for too few slots writes \<open>available_slots\<close> into the roster without asking whether
  it is positive, which \<open>admin_add_team\<close> does ask.
\<close>

theorem full_event_registration_stores_zero_size_entry:
  "update_team_size rep ''Alpha'' 5 False full_store = Inr (True, waiting_store) \<and>
   teams waiting_event = [(''x'', 9), (''y'', 9), (''z'', 2), (''alpha'', 0)] \<and>
   waitlist waiting_event = [(''alpha'', 5)]"
  by code_simp

text \<open>
  C5. Cancelling a team removes all its roster entries and waitlist entries. On the store
  above, cancelling Alpha removes the waitlist entry and the assignment, but the roster
  entry \<open>alpha \<mapsto> 0\<close> stays: the roster is only touched when \<open>event_size > 0\<close>.
\<close>

theorem cancel_leaves_zero_size_entry:
  "update_team_size rep ''alpha'' 0 False waiting_store =
     Inr (True, \<lparr>event_data = Some (waiting_event\<lparr>waitlist := []\<rparr>), user_team_assignments = []\<rparr>) \<and>
   find_item ''alpha'' (teams (waiting_event\<lparr>waitlist := []\<rparr>)) = Some (''alpha'', 0)"
  by code_simp

text \<open>
  C4. A decrease removes \<open>min(waitlist_size, reduction)\<close> members from the team's
  waitlist entries. \<open>admin_add_team\<close> compares names as typed, so "Alpha" can be put
  on the waitlist beside "alpha". The team then has eight members waiting, and the
  request to shrink it to seven writes the aggregate \<open>8 - 1\<close> into the first entry
  alone: ten members wait afterwards.
\<close>

theorem decrease_with_two_entries_grows_waitlist:
  "admin_add_team ''Alpha'' 3 None False waiting_store = (True, two_entry_store) \<and>
   waitlist_total ''alpha'' [(''alpha'', 5), (''Alpha'', 3)] = 8 \<and>
   update_team_size rep ''alpha'' 7 False two_entry_store =
     Inr (True, \<lparr>event_data = Some (waiting_event\<lparr>waitlist := [(''alpha'', 7), (''Alpha'', 3)]\<rparr>),
                 user_team_assignments = [(''7'', ''alpha'')]\<rparr>) \<and>
   waitlist_total ''alpha'' [(''alpha'', 7), (''Alpha'', 3)] = 10"
  by code_simp

section \<open>Expiry\<close>

lemma check_waitlist_and_expiry_assignments:
  "user_team_assignments (check_waitlist_and_expiry now s) = user_team_assignments s"
  by (simp add: check_waitlist_and_expiry_def split: option.splits)

text \<open>
  C8. When the background check finds the event expired, the roster, the waitlist and
  all assignments are cleared. The check clears \<open>event_data\<close> only: the assignment of
  user 7 to team alpha survives the expiry (the deletion dialog clears both).
\<close>

theorem expiry_keeps_assignments:
  "check_waitlist_and_expiry 1001 waiting_store =
     \<lparr>event_data = None, user_team_assignments = [(''7'', ''alpha'')]\<rparr>"
  by code_simp

section \<open>The total-size query on both shapes\<close>

lemma find_item_legacy_roster:
  "find_item tn (legacy_roster ts) = map_option (\<lambda>(n, sz, tid). (n, Bare sz)) (find_item tn ts)"
  by (induction ts) (auto simp: legacy_roster_def)

lemma find_item_current_roster:
  "find_item tn (current_roster ts) =
   map_option (\<lambda>(n, sz, tid). (n, Rec (Some sz) (Some tid))) (find_item tn ts)"
  by (induction ts) (auto simp: current_roster_def)

lemma using_team_ids_legacy_roster: "using_team_ids (legacy_roster ts) = False"
  by (cases ts) (auto simp: using_team_ids_def legacy_roster_def)

lemma using_team_ids_current_roster: "using_team_ids (current_roster ts) = (ts \<noteq> [])"
  by (cases ts) (auto simp: using_team_ids_def current_roster_def)

lemma roster_lookup_legacy:
  "roster_lookup tn (legacy_roster ts) =
   Inr (Bare (case find_item tn ts of None \<Rightarrow> 0 | Some (n, sz, tid) \<Rightarrow> sz),
        map_option fst (find_item tn ts))"
  by (auto simp: roster_lookup_def find_item_legacy_roster using_team_ids_legacy_roster
      split: option.splits)

lemma roster_lookup_current:
  "roster_lookup tn (current_roster ts) =
   Inr (Bare (case find_item tn ts of None \<Rightarrow> 0 | Some (n, sz, tid) \<Rightarrow> sz),
        map_option fst (find_item tn ts))"
  by (cases ts)
     (auto simp: roster_lookup_def find_item_current_roster using_team_ids_current_roster
      split: option.splits)

lemma legacy_waitlist_pair:
  "legacy_waitlist ws = pair_waitlist (map (\<lambda>(n, sz, tid). (n, sz)) ws)"
  by (simp add: legacy_waitlist_def pair_waitlist_def split_def)

lemma waitlist_total_triples:
  "waitlist_total tn (map (\<lambda>(n, sz, tid). (n, sz)) ws) =
   sum_list (map (\<lambda>(n, sz, tid). sz) (filter (\<lambda>(n, sz, tid). lower n = tn) ws))"
  by (induction ws) (auto simp: waitlist_total_def)

lemma entries_size_scan_ids:
  "entries_size (waitlist_scan_ids tn i (current_waitlist ws)) =
   sum_list (map (\<lambda>(n, sz, tid). sz) (filter (\<lambda>(n, sz, tid). lower n = tn) ws))"
  by (induction ws arbitrary: i) (auto simp: entries_size_def current_waitlist_def)

lemma using_waitlist_ids_current: "using_waitlist_ids (current_waitlist ws) = (ws \<noteq> [])"
  by (cases ws) (auto simp: using_waitlist_ids_def current_waitlist_def)

lemma sizes_legacy:
  "sizes_of (get_team_total_size (legacy_roster ts) (legacy_waitlist ws) q) =
   Some (case find_item (lower (strip q)) ts of None \<Rightarrow> 0 | Some (n, sz, tid) \<Rightarrow> sz,
         sum_list (map (\<lambda>(n, sz, tid). sz) (filter (\<lambda>(n, sz, tid). lower n = lower (strip q)) ws)),
         (case find_item (lower (strip q)) ts of None \<Rightarrow> 0 | Some (n, sz, tid) \<Rightarrow> sz) +
         sum_list (map (\<lambda>(n, sz, tid). sz) (filter (\<lambda>(n, sz, tid). lower n = lower (strip q)) ws)))"
  by (simp add: get_team_total_size_def roster_lookup_legacy legacy_waitlist_pair
      using_waitlist_ids_pair scan_legacy_pair entries_size_legacy waitlist_total_triples
      sizes_of_def Let_def)

lemma sizes_current:
  "sizes_of (get_team_total_size (current_roster ts) (current_waitlist ws) q) =
   Some (case find_item (lower (strip q)) ts of None \<Rightarrow> 0 | Some (n, sz, tid) \<Rightarrow> sz,
         sum_list (map (\<lambda>(n, sz, tid). sz) (filter (\<lambda>(n, sz, tid). lower n = lower (strip q)) ws)),
         (case find_item (lower (strip q)) ts of None \<Rightarrow> 0 | Some (n, sz, tid) \<Rightarrow> sz) +
         sum_list (map (\<lambda>(n, sz, tid). sz) (filter (\<lambda>(n, sz, tid). lower n = lower (strip q)) ws)))"
proof (cases "ws = []")
  case True
  then show ?thesis
    by (simp add: get_team_total_size_def roster_lookup_current using_waitlist_ids_def
        current_waitlist_def entries_size_def sizes_of_def Let_def)
next
  case False
  then show ?thesis
    by (simp add: get_team_total_size_def roster_lookup_current using_waitlist_ids_current
        entries_size_scan_ids sizes_of_def Let_def)
qed

text \<open>
  C10. Let \<open>ts\<close> and \<open>ws\<close> be the teams of the roster and of the waitlist, each with
  name, size and id. Written in the legacy shape (bare sizes, pairs) and in the current
  shape (\<open>{size, id}\<close> dictionaries, triples), they give \<open>get_team_total_size\<close> the
  same \<open>(event_size, waitlist_size, total_size)\<close> for every queried name, and the
  query raises on neither: the event size is the size of the first roster key matching
  the normalised name, the waitlist size the sum over all matching waitlist entries.
\<close>

theorem total_size_same_on_both_shapes:
  "sizes_of (get_team_total_size (legacy_roster ts) (legacy_waitlist ws) q) =
   sizes_of (get_team_total_size (current_roster ts) (current_waitlist ws) q) \<and>
   sizes_of (get_team_total_size (current_roster ts) (current_waitlist ws) q) =
   Some (case find_item (lower (strip q)) ts of None \<Rightarrow> 0 | Some (n, sz, tid) \<Rightarrow> sz,
         sum_list (map (\<lambda>(n, sz, tid). sz) (filter (\<lambda>(n, sz, tid). lower n = lower (strip q)) ws)),
         (case find_item (lower (strip q)) ts of None \<Rightarrow> 0 | Some (n, sz, tid) \<Rightarrow> sz) +
         sum_list (map (\<lambda>(n, sz, tid). sz) (filter (\<lambda>(n, sz, tid). lower n = lower (strip q)) ws)))"
  using sizes_legacy[of ts ws q] sizes_current[of ts ws q] by simp

section \<open>The branches of \<open>update_team_size\<close>\<close>


lemma find_item_lower: "find_item tn d = Some (n, v) \<Longrightarrow> lower n = tn"
  by (induction d) (auto split: if_splits)

lemma find_item_nonempty:
  assumes "find_item tn d = Some (n, v)" and "tn \<noteq> []"
  shows "n \<noteq> []"
proof -
  have "lower n = tn" by (rule find_item_lower[OF assms(1)])
  with assms(2) show ?thesis by (auto simp: lower_def)
qed

lemma find_waitlist_lower: "find_waitlist tn i wl = Some (n, j) \<Longrightarrow> lower n = tn"
  by (induction wl arbitrary: i) (auto split: if_splits)

lemma checks_pass_guards:
  assumes "checks_pass ia team_name new_size is_admin s" and "get_event s = Some ev"
  shows "strip team_name \<noteq> []" "\<not> (\<not> is_admin \<and> \<not> clan_rep ia)"
    "\<not> (\<not> is_admin \<and>
        (lower (dict_get (user_id ia) [] (user_team_assignments s)) \<noteq> [] \<and>
         lower (dict_get (user_id ia) [] (user_team_assignments s)) \<noteq> lower (strip team_name)))"
    "\<not> new_size < 0" "\<not> (new_size > max_team_size ev \<and> \<not> is_admin)"
  using assms by (auto simp: checks_pass_def)

lemma get_team_total_size_normalised:
  "get_team_total_size (bare_teams d) (pair_waitlist wl) (lower (strip team_name)) =
     Inr (roster_size (lower (strip team_name)) d,
          waitlist_total (lower (strip team_name)) wl,
          roster_size (lower (strip team_name)) d + waitlist_total (lower (strip team_name)) wl,
          map_option fst (find_item (lower (strip team_name)) d),
          legacy_entries (lower (strip team_name)) 0 wl)"
  by (rule get_team_total_size_legacy[OF normalise_idem])

lemma update_team_size_rejected:
  assumes "\<not> checks_pass ia team_name new_size is_admin s"
  shows "update_team_size ia team_name new_size is_admin s = Inr (False, s)"
proof (cases "strip team_name = []")
  case True
  then show ?thesis by (simp add: update_team_size_def)
next
  case name: False
  show ?thesis
  proof (cases "get_event s")
    case None
    then show ?thesis using name by (simp add: update_team_size_def)
  next
    case (Some ev)
    with assms name
    have "(\<not> is_admin \<and> \<not> clan_rep ia) \<or>
          (\<not> is_admin \<and>
            (lower (dict_get (user_id ia) [] (user_team_assignments s)) \<noteq> [] \<and>
             lower (dict_get (user_id ia) [] (user_team_assignments s)) \<noteq> lower (strip team_name))) \<or>
          new_size < 0 \<or> (new_size > max_team_size ev \<and> \<not> is_admin)"
      by (auto simp: checks_pass_def)
    then show ?thesis
      unfolding update_team_size_def Let_def using name Some
      by (elim disjE) simp_all
  qed
qed

lemma update_team_size_accepted:
  assumes "checks_pass ia team_name new_size is_admin s" and "get_event s = Some ev"
  shows "update_team_size ia team_name new_size is_admin s =
     (let tn = lower (strip team_name);
          event_size = roster_size tn (teams ev);
          waitlist_size = waitlist_total tn (waitlist ev);
          s0 = (if event_size + waitlist_size = 0 \<and> new_size > 0 then
                  s\<lparr>user_team_assignments := dict_set (user_id ia) tn (user_team_assignments s)\<rparr>
                else s);
          size_difference = new_size - (event_size + waitlist_size)
      in if new_size = 0 then Inr (True, update_unregister tn event_size waitlist_size ev s0)
         else if size_difference = 0 then Inr (True, s0)
         else if size_difference > 0 then
           Inr (True, s0\<lparr>event_data := Some (update_increase tn size_difference waitlist_size ev)\<rparr>)
         else
           Inr (True,
                if event_reduction_of size_difference waitlist_size > 0 then
                  process_waitlist_after_change (event_reduction_of size_difference waitlist_size)
                    (s0\<lparr>event_data :=
                          Some (update_decrease tn size_difference event_size waitlist_size ev)\<rparr>)
                else s0\<lparr>event_data :=
                          Some (update_decrease tn size_difference event_size waitlist_size ev)\<rparr>))"
  apply (simp only: update_team_size_def Let_def)
  apply (simp only: checks_pass_guards[OF assms] assms(2) get_team_total_size_normalised
                    if_False option.case sum.case prod.case)
  done

lemma update_team_size_increase:
  assumes "checks_pass ia team_name new_size is_admin s" and "get_event s = Some ev"
    and "0 < new_size"
    and "roster_size (lower (strip team_name)) (teams ev) +
         waitlist_total (lower (strip team_name)) (waitlist ev) < new_size"
  shows "update_team_size ia team_name new_size is_admin s =
     Inr (True,
          (if roster_size (lower (strip team_name)) (teams ev) +
              waitlist_total (lower (strip team_name)) (waitlist ev) = 0 then
             s\<lparr>user_team_assignments :=
                  dict_set (user_id ia) (lower (strip team_name)) (user_team_assignments s)\<rparr>
           else s)
          \<lparr>event_data :=
             Some (update_increase (lower (strip team_name))
                     (new_size - (roster_size (lower (strip team_name)) (teams ev) +
                                  waitlist_total (lower (strip team_name)) (waitlist ev)))
                     (waitlist_total (lower (strip team_name)) (waitlist ev)) ev)\<rparr>)"
proof -
  let ?t = "roster_size (lower (strip team_name)) (teams ev) +
            waitlist_total (lower (strip team_name)) (waitlist ev)"
  have f: "new_size \<noteq> 0" "\<not> (new_size - ?t = 0)" "new_size - ?t > 0"
    "(?t = 0 \<and> new_size > 0) = (?t = 0)"
    using assms(3,4) by auto
  show ?thesis
    apply (simp only: update_team_size_accepted[OF assms(1,2)] Let_def)
    apply (simp only: f if_False if_True)
    done
qed

lemma update_team_size_decrease:
  assumes "checks_pass ia team_name new_size is_admin s" and "get_event s = Some ev"
    and "0 < new_size"
    and "new_size < roster_size (lower (strip team_name)) (teams ev) +
         waitlist_total (lower (strip team_name)) (waitlist ev)"
  shows "update_team_size ia team_name new_size is_admin s =
     Inr (True,
          if event_reduction_of
               (new_size - (roster_size (lower (strip team_name)) (teams ev) +
                            waitlist_total (lower (strip team_name)) (waitlist ev)))
               (waitlist_total (lower (strip team_name)) (waitlist ev)) > 0 then
            process_waitlist_after_change
              (event_reduction_of
                 (new_size - (roster_size (lower (strip team_name)) (teams ev) +
                              waitlist_total (lower (strip team_name)) (waitlist ev)))
                 (waitlist_total (lower (strip team_name)) (waitlist ev)))
              (s\<lparr>event_data :=
                   Some (update_decrease (lower (strip team_name))
                           (new_size - (roster_size (lower (strip team_name)) (teams ev) +
                                        waitlist_total (lower (strip team_name)) (waitlist ev)))
                           (roster_size (lower (strip team_name)) (teams ev))
                           (waitlist_total (lower (strip team_name)) (waitlist ev)) ev)\<rparr>)
          else
            s\<lparr>event_data :=
                 Some (update_decrease (lower (strip team_name))
                         (new_size - (roster_size (lower (strip team_name)) (teams ev) +
                                      waitlist_total (lower (strip team_name)) (waitlist ev)))
                         (roster_size (lower (strip team_name)) (teams ev))
                         (waitlist_total (lower (strip team_name)) (waitlist ev)) ev)\<rparr>)"
proof -
  let ?t = "roster_size (lower (strip team_name)) (teams ev) +
            waitlist_total (lower (strip team_name)) (waitlist ev)"
  have f: "new_size \<noteq> 0" "\<not> (new_size - ?t = 0)" "\<not> (new_size - ?t > 0)"
    "\<not> (?t = 0 \<and> new_size > 0)"
    using assms(3,4) by auto
  show ?thesis
    apply (simp only: update_team_size_accepted[OF assms(1,2)] Let_def)
    apply (simp only: f if_False if_True)
    done
qed

lemma update_team_size_cancel:
  assumes "checks_pass ia team_name 0 is_admin s" and "get_event s = Some ev"
  shows "update_team_size ia team_name 0 is_admin s =
     Inr (True, update_unregister (lower (strip team_name))
                  (roster_size (lower (strip team_name)) (teams ev))
                  (waitlist_total (lower (strip team_name)) (waitlist ev)) ev s)"
proof -
  have f: "\<not> ((0::int) > 0)" by simp
  show ?thesis
    apply (simp only: update_team_size_accepted[OF assms(1,2)] Let_def)
    apply (simp only: f simp_thms if_False if_True)
    done
qed

section \<open>Roster and waitlist updates\<close>


lemma find_item_dict_set_found:
  "find_item tn d = Some (rn, v) \<Longrightarrow> find_item tn (dict_set rn w d) = Some (rn, w)"
proof (induction d)
  case Nil
  then show ?case by simp
next
  case (Cons a d)
  obtain n x where a: "a = (n, x)" by (cases a)
  show ?case
  proof (cases "lower n = tn")
    case True
    then show ?thesis using Cons.prems a by simp
  next
    case False
    then have f: "find_item tn d = Some (rn, v)" using Cons.prems a by simp
    then have "lower rn = tn" by (rule find_item_lower)
    then have "n \<noteq> rn" using False by auto
    then show ?thesis using False a Cons.IH[OF f] by simp
  qed
qed

lemma find_item_None_key: "find_item tn d = None \<Longrightarrow> lower tn = tn \<Longrightarrow> tn \<notin> fst ` set d"
  by (induction d) (force split: if_splits)+

lemma find_item_dict_set_new:
  "find_item tn d = None \<Longrightarrow> lower tn = tn \<Longrightarrow> find_item tn (dict_set tn w d) = Some (tn, w)"
  by (induction d) (auto split: if_splits)

lemma roster_size_roster_add:
  assumes "lower tn = tn" and "tn \<noteq> []"
  shows "roster_size tn (roster_add tn k d) = roster_size tn d + k"
proof (cases "find_item tn d")
  case None
  then show ?thesis
    using assms by (simp add: roster_size_def roster_add_def find_item_dict_set_new)
next
  case (Some a)
  obtain rn v where a: "a = (rn, v)" by (cases a)
  have "rn \<noteq> []" using find_item_nonempty[OF Some[unfolded a] assms(2)] .
  then show ?thesis
    using Some a by (simp add: roster_size_def roster_add_def find_item_dict_set_found)
qed

lemma find_item_map_of: "find_item tn d = Some (rn, v) \<Longrightarrow> map_of d rn = Some v"
proof (induction d)
  case Nil
  then show ?case by simp
next
  case (Cons a d)
  obtain n x where a: "a = (n, x)" by (cases a)
  show ?case
  proof (cases "lower n = tn")
    case True
    then show ?thesis using Cons.prems a by simp
  next
    case False
    then have f: "find_item tn d = Some (rn, v)" using Cons.prems a by simp
    then have "lower rn = tn" by (rule find_item_lower)
    then have "n \<noteq> rn" using False by auto
    then show ?thesis using a Cons.IH[OF f] by simp
  qed
qed

lemma sum_dict_set:
  "sum_list (map snd (dict_set k v d)) = sum_list (map snd d) - dict_get k 0 d + (v::int)"
  by (induction d) (auto simp: dict_get_def)

lemma sum_dict_pop:
  "sum_list (map snd (dict_pop k d)) = sum_list (map snd d) - dict_get k (0::int) d"
  by (induction d) (auto simp: dict_get_def)

lemma dict_get_found: "find_item tn d = Some (rn, v) \<Longrightarrow> dict_get rn dflt d = v"
  by (simp add: dict_get_def find_item_map_of)

lemma dict_get_absent: "find_item tn d = None \<Longrightarrow> lower tn = tn \<Longrightarrow> dict_get tn dflt d = dflt"
proof -
  assume "find_item tn d = None" "lower tn = tn"
  then have "tn \<notin> fst ` set d" by (rule find_item_None_key)
  then have "map_of d tn = None" by (simp add: map_of_eq_None_iff)
  then show ?thesis by (simp add: dict_get_def)
qed

lemma sum_roster_add:
  assumes "lower tn = tn" and "tn \<noteq> []"
  shows "sum_list (map snd (roster_add tn k d)) = sum_list (map snd d) + k"
proof (cases "find_item tn d")
  case None
  then show ?thesis
    using assms by (simp add: roster_add_def sum_dict_set dict_get_absent)
next
  case (Some a)
  obtain rn v where a: "a = (rn, v)" by (cases a)
  have "rn \<noteq> []" using find_item_nonempty[OF Some[unfolded a] assms(2)] .
  then show ?thesis
    using Some a by (simp add: roster_add_def sum_dict_set dict_get_found)
qed

lemma find_waitlist_None_iff:
  "find_waitlist tn i wl = None \<longleftrightarrow> filter (\<lambda>(n, sz). lower n = tn) wl = []"
  by (induction wl arbitrary: i) auto

lemma waitlist_total_append:
  "waitlist_total tn (wl @ [(n, k)]) = waitlist_total tn wl + (if lower n = tn then k else 0)"
  by (simp add: waitlist_total_def)

lemma find_waitlist_index:
  "find_waitlist tn j wl = Some (wn, i) \<Longrightarrow>
   j \<le> i \<and> i - j < length wl \<and> fst (wl ! (i - j)) = wn \<and> lower wn = tn"
proof (induction wl arbitrary: j)
  case Nil
  then show ?case by simp
next
  case (Cons a wl)
  obtain n sz where a: "a = (n, sz)" by (cases a)
  show ?case
  proof (cases "lower n = tn")
    case True
    then show ?thesis using Cons.prems a by simp
  next
    case False
    then have f: "find_waitlist tn (Suc j) wl = Some (wn, i)" using Cons.prems a by simp
    from Cons.IH[OF f] have h: "Suc j \<le> i" "i - Suc j < length wl"
      "fst (wl ! (i - Suc j)) = wn" "lower wn = tn" by auto
    then have "i - j = Suc (i - Suc j)" by simp
    then show ?thesis using h by simp
  qed
qed

lemma waitlist_total_update:
  "find_waitlist tn j wl = Some (wn, i) \<Longrightarrow>
   waitlist_total tn (wl[i - j := (wn, x)]) = waitlist_total tn wl - snd (wl ! (i - j)) + x"
proof (induction wl arbitrary: j)
  case Nil
  then show ?case by simp
next
  case (Cons a wl)
  obtain n sz where a: "a = (n, sz)" by (cases a)
  show ?case
  proof (cases "lower n = tn")
    case True
    then show ?thesis using Cons.prems a by (simp add: waitlist_total_def)
  next
    case False
    then have f: "find_waitlist tn (Suc j) wl = Some (wn, i)" using Cons.prems a by simp
    from find_waitlist_index[OF f] have "Suc j \<le> i" by simp
    then have e: "i - j = Suc (i - Suc j)" by simp
    have "waitlist_total tn ((a # wl)[i - j := (wn, x)]) = waitlist_total tn (wl[i - Suc j := (wn, x)])"
      unfolding e using False a by (simp add: waitlist_total_def)
    also have "\<dots> = waitlist_total tn wl - snd (wl ! (i - Suc j)) + x"
      by (rule Cons.IH[OF f])
    finally show ?thesis unfolding e using False a by (simp add: waitlist_total_def)
  qed
qed

lemma waitlist_total_single:
  "find_waitlist tn j wl = Some (wn, i) \<Longrightarrow>
   length (filter (\<lambda>(n, sz). lower n = tn) wl) \<le> 1 \<Longrightarrow>
   waitlist_total tn wl = snd (wl ! (i - j))"
proof (induction wl arbitrary: j)
  case Nil
  then show ?case by simp
next
  case (Cons a wl)
  obtain n sz where a: "a = (n, sz)" by (cases a)
  show ?case
  proof (cases "lower n = tn")
    case True
    then have "filter (\<lambda>(n, sz). lower n = tn) wl = []" using Cons.prems(2) a by simp
    then show ?thesis using True Cons.prems(1) a by (simp add: waitlist_total_def)
  next
    case False
    then have f: "find_waitlist tn (Suc j) wl = Some (wn, i)" using Cons.prems a by simp
    from find_waitlist_index[OF f] have "Suc j \<le> i" by simp
    then have e: "i - j = Suc (i - Suc j)" by simp
    have "length (filter (\<lambda>(n, sz). lower n = tn) wl) \<le> 1" using Cons.prems(2) False a by simp
    from Cons.IH[OF f this] show ?thesis unfolding e using False a by (simp add: waitlist_total_def)
  qed
qed

section \<open>Shrinking a team\<close>

lemma checks_pass_name: "checks_pass ia team_name new_size is_admin s \<Longrightarrow> lower (strip team_name) \<noteq> []"
  by (simp add: checks_pass_def lower_def)

lemma update_decrease_roster_only:
  assumes "find_item tn (teams ev) = Some (rn, v)" and "tn \<noteq> []"
    and "waitlist_total tn (waitlist ev) = 0" and "0 < new_size" and "new_size < v"
  shows "update_decrease tn (new_size - v) v 0 ev =
         ev\<lparr>teams := dict_set rn new_size (teams ev), slots_used := slots_used ev - (v - new_size)\<rparr>"
proof -
  have rn: "rn \<noteq> []" by (rule find_item_nonempty[OF assms(1,2)])
  have w: "waitlist_reduction_of (new_size - v) 0 = 0"
    using assms(4,5) by (simp add: waitlist_reduction_of_def)
  have e: "event_reduction_of (new_size - v) 0 = v - new_size"
    using assms(4,5) by (simp add: event_reduction_of_def w)
  show ?thesis
    unfolding update_decrease_def Let_def w e
    using assms(1,4,5) rn by (simp split: option.splits)
qed

text \<open>
  C9, as amended. If a team has a roster entry of size 6 and waitlist size 0, an accepted
  request to set its size to 2 gives \<open>event_reduction = 4\<close>, keeps the roster
  entry and sets it to 2, lowers \<open>slots_used\<close> by 4, and then runs the promoter with
  four freed slots.
\<close>

theorem decrease_keeps_reduced_entry:
  assumes "checks_pass ia team_name 2 is_admin s" and "get_event s = Some ev"
    and "find_item (lower (strip team_name)) (teams ev) = Some (rn, 6)"
    and "waitlist_total (lower (strip team_name)) (waitlist ev) = 0"
  shows "event_reduction_of (2 - (6 + 0)) 0 = 4 \<and>
         update_team_size ia team_name 2 is_admin s =
           Inr (True,
                process_waitlist_after_change 4
                  (s\<lparr>event_data :=
                       Some (ev\<lparr>teams := dict_set rn 2 (teams ev),
                                slots_used := slots_used ev - 4\<rparr>)\<rparr>)) \<and>
         find_item (lower (strip team_name)) (dict_set rn 2 (teams ev)) = Some (rn, 2)"
proof -
  let ?tn = "lower (strip team_name)"
  have tn: "?tn \<noteq> []" by (rule checks_pass_name[OF assms(1)])
  have r: "roster_size ?tn (teams ev) = 6" using assms(3) by (simp add: roster_size_def)
  have e: "event_reduction_of (2 - (6 + 0)) 0 = 4"
    by (simp add: event_reduction_of_def waitlist_reduction_of_def)
  have d: "update_decrease ?tn (2 - 6) 6 0 ev =
           ev\<lparr>teams := dict_set rn 2 (teams ev), slots_used := slots_used ev - (6 - 2)\<rparr>"
    by (rule update_decrease_roster_only[OF assms(3) tn assms(4)]) simp_all
  have u: "update_team_size ia team_name 2 is_admin s =
           Inr (True,
                process_waitlist_after_change 4
                  (s\<lparr>event_data :=
                       Some (ev\<lparr>teams := dict_set rn 2 (teams ev),
                                slots_used := slots_used ev - 4\<rparr>)\<rparr>))"
    using update_team_size_decrease[OF assms(1,2), unfolded r assms(4)] e d by simp
  show ?thesis
    using e u find_item_dict_set_found[OF assms(3)] by simp
qed

theorem decrease_keeps_reduced_entry_witness:
  "checks_pass rep ''Bravo'' 2 False bravo_store \<and>
   get_event bravo_store = Some bravo_event \<and>
   find_item (lower (strip ''Bravo'')) (teams bravo_event) = Some (''bravo'', 6) \<and>
   waitlist_total (lower (strip ''Bravo'')) (waitlist bravo_event) = 0 \<and>
   update_team_size rep ''Bravo'' 2 False bravo_store =
     Inr (True,
          \<lparr>event_data = Some (bravo_event\<lparr>teams := [(''x'', 9), (''bravo'', 2)], slots_used := 11\<rparr>),
           user_team_assignments = [(''7'', ''bravo'')]\<rparr>)"
proof -
  have h1: "checks_pass rep ''Bravo'' 2 False bravo_store" by code_simp
  have h2: "get_event bravo_store = Some bravo_event" by code_simp
  have h3: "find_item (lower (strip ''Bravo'')) (teams bravo_event) = Some (''bravo'', 6)"
    by code_simp
  have h4: "waitlist_total (lower (strip ''Bravo'')) (waitlist bravo_event) = 0" by code_simp
  have p: "process_waitlist_after_change 4
             (bravo_store\<lparr>event_data :=
                Some (bravo_event\<lparr>teams := dict_set ''bravo'' 2 (teams bravo_event),
                                  slots_used := slots_used bravo_event - 4\<rparr>)\<rparr>) =
           \<lparr>event_data = Some (bravo_event\<lparr>teams := [(''x'', 9), (''bravo'', 2)], slots_used := 11\<rparr>),
            user_team_assignments = [(''7'', ''bravo'')]\<rparr>"
    by code_simp
  from decrease_keeps_reduced_entry[OF h1 h2 h3 h4]
  have "update_team_size rep ''Bravo'' 2 False bravo_store =
          Inr (True,
               process_waitlist_after_change 4
                 (bravo_store\<lparr>event_data :=
                    Some (bravo_event\<lparr>teams := dict_set ''bravo'' 2 (teams bravo_event),
                                      slots_used := slots_used bravo_event - 4\<rparr>)\<rparr>))"
    by simp
  then show ?thesis using h1 h2 h3 h4 p by simp
qed

text \<open>
  The claim as it was stated has the roster entry removed and \<open>slots_used\<close> lowered
  by 6. For Bravo with six of fifteen used slots the entry stays with size 2 and
  \<open>slots_used\<close> becomes 11, not 9.
\<close>

theorem decrease_removes_entry_counterexample:
  "update_team_size rep ''Bravo'' 2 False bravo_store =
     Inr (True,
          \<lparr>event_data = Some (bravo_event\<lparr>teams := [(''x'', 9), (''bravo'', 2)], slots_used := 11\<rparr>),
           user_team_assignments = [(''7'', ''bravo'')]\<rparr>) \<and>
   find_item ''bravo'' [(''x'', 9), (''bravo'', 2)] \<noteq> None \<and>
   slots_used bravo_event - 6 \<noteq> 11"
  by code_simp

section \<open>Growing a team\<close>


lemma normalised_lower: "lower (lower (strip team_name)) = lower (strip team_name)"
  by (rule lower_idem)

lemma update_increase_fields:
  "slots_used (update_increase tn delta ws ev) =
     slots_used ev + min delta (max_slots ev - slots_used ev)"
  "teams (update_increase tn delta ws ev) =
     roster_add tn (min delta (max_slots ev - slots_used ev)) (teams ev)"
  "max_slots (update_increase tn delta ws ev) = max_slots ev"
  "waitlist (update_increase tn delta ws ev) =
     (if delta \<le> max_slots ev - slots_used ev then waitlist ev
      else waitlist_add tn ws (delta - (max_slots ev - slots_used ev)) (waitlist ev))"
  by (simp_all add: update_increase_def Let_def min_def)

lemma waitlist_add_single:
  assumes "tn \<noteq> []" and "length (filter (\<lambda>(n, sz). lower n = tn) wl) \<le> 1"
  shows "waitlist_add tn (waitlist_total tn wl) k wl =
         (case find_waitlist tn 0 wl of
            None \<Rightarrow> wl @ [(tn, k)]
          | Some (wn, i) \<Rightarrow> wl[i := (wn, snd (wl ! i) + k)])"
proof (cases "find_waitlist tn 0 wl")
  case None
  then show ?thesis by (simp add: waitlist_add_def)
next
  case (Some a)
  obtain wn i where a: "a = (wn, i)" by (cases a)
  have f: "find_waitlist tn 0 wl = Some (wn, i)" using Some a by simp
  have "lower wn = tn" using find_waitlist_index[OF f] by simp
  then have wn: "wn \<noteq> []" using assms(1) by (auto simp: lower_def)
  have "waitlist_total tn wl = snd (wl ! i)"
    using waitlist_total_single[OF f assms(2)] by simp
  then show ?thesis using f wn by (simp add: waitlist_add_def)
qed

lemma waitlist_total_waitlist_add:
  assumes "tn \<noteq> []" and "lower tn = tn"
    and "length (filter (\<lambda>(n, sz). lower n = tn) wl) \<le> 1"
  shows "waitlist_total tn (waitlist_add tn (waitlist_total tn wl) k wl) = waitlist_total tn wl + k"
proof (cases "find_waitlist tn 0 wl")
  case None
  then show ?thesis using assms(2) by (simp add: waitlist_add_def waitlist_total_append)
next
  case (Some a)
  obtain wn i where a: "a = (wn, i)" by (cases a)
  have f: "find_waitlist tn 0 wl = Some (wn, i)" using Some a by simp
  have "lower wn = tn" using find_waitlist_index[OF f] by simp
  then have wn: "wn \<noteq> []" using assms(1) by (auto simp: lower_def)
  have t: "waitlist_total tn wl = snd (wl ! i)"
    using waitlist_total_single[OF f assms(3)] by simp
  have "waitlist_total tn (wl[i := (wn, waitlist_total tn wl + k)]) =
        waitlist_total tn wl - snd (wl ! i) + (waitlist_total tn wl + k)"
    using waitlist_total_update[OF f, of "waitlist_total tn wl + k"] by simp
  then show ?thesis using f wn t by (simp add: waitlist_add_def)
qed

text \<open>
  C3, as amended. For every accepted request that raises the total size of team T by
  \<open>delta > 0\<close>, exactly \<open>min(delta, max_slots - slots_used)\<close> members are added to
  T's roster entry (the first roster key that matches the lower-cased name, created under
  the lower-cased name when there is none) and to \<open>slots_used\<close>, and the roster as a
  whole grows by that amount. If T has at most one waitlist entry, its waitlist size grows
  by the remaining \<open>delta - min(delta, max_slots - slots_used)\<close>. A team that did not
  exist is assigned to the requester.
\<close>

theorem increase_fills_roster_then_waitlist:
  fixes ia :: interaction and team_name :: string and new_size :: int and is_admin :: bool
    and s :: state and ev :: event
  defines "tn \<equiv> lower (strip team_name)"
  defines "cur_total \<equiv> roster_size tn (teams ev) + waitlist_total tn (waitlist ev)"
  defines "delta \<equiv> new_size - cur_total"
  defines "to_roster \<equiv> min delta (max_slots ev - slots_used ev)"
  defines "ev' \<equiv> update_increase tn delta (waitlist_total tn (waitlist ev)) ev"
  assumes "checks_pass ia team_name new_size is_admin s" and "get_event s = Some ev"
    and "0 < new_size" and "0 < delta"
  shows "update_team_size ia team_name new_size is_admin s =
           Inr (True,
                (if cur_total = 0 then
                   s\<lparr>user_team_assignments := dict_set (user_id ia) tn (user_team_assignments s)\<rparr>
                 else s)\<lparr>event_data := Some ev'\<rparr>) \<and>
         slots_used ev' = slots_used ev + to_roster \<and>
         roster_size tn (teams ev') = roster_size tn (teams ev) + to_roster \<and>
         sum_list (map snd (teams ev')) = sum_list (map snd (teams ev)) + to_roster \<and>
         (length (filter (\<lambda>(n, sz). lower n = tn) (waitlist ev)) \<le> 1 \<longrightarrow>
            waitlist_total tn (waitlist ev') =
              waitlist_total tn (waitlist ev) + (delta - to_roster))"
proof -
  have tn: "tn \<noteq> []" unfolding tn_def by (rule checks_pass_name[OF assms(6)])
  have l: "lower tn = tn" unfolding tn_def by (rule lower_idem)
  have lt: "cur_total < new_size" using assms(9) unfolding delta_def by simp
  have u: "update_team_size ia team_name new_size is_admin s =
           Inr (True,
                (if cur_total = 0 then
                   s\<lparr>user_team_assignments := dict_set (user_id ia) tn (user_team_assignments s)\<rparr>
                 else s)\<lparr>event_data := Some ev'\<rparr>)"
    using update_team_size_increase[OF assms(6,7,8) lt[unfolded cur_total_def tn_def]]
    unfolding ev'_def delta_def cur_total_def tn_def .
  have a: "slots_used ev' = slots_used ev + to_roster"
    unfolding ev'_def to_roster_def by (rule update_increase_fields(1))
  have t: "teams ev' = roster_add tn to_roster (teams ev)"
    unfolding ev'_def to_roster_def by (rule update_increase_fields(2))
  have b: "roster_size tn (teams ev') = roster_size tn (teams ev) + to_roster"
    unfolding t by (rule roster_size_roster_add[OF l tn])
  have c: "sum_list (map snd (teams ev')) = sum_list (map snd (teams ev)) + to_roster"
    unfolding t by (rule sum_roster_add[OF l tn])
  have d: "waitlist_total tn (waitlist ev') =
             waitlist_total tn (waitlist ev) + (delta - to_roster)"
    if one: "length (filter (\<lambda>(n, sz). lower n = tn) (waitlist ev)) \<le> 1"
  proof (cases "delta \<le> max_slots ev - slots_used ev")
    case True
    then show ?thesis
      unfolding ev'_def to_roster_def by (simp add: update_increase_fields(4))
  next
    case False
    then have m: "to_roster = max_slots ev - slots_used ev" unfolding to_roster_def by simp
    show ?thesis
      unfolding ev'_def m using False
      by (simp add: update_increase_fields(4) waitlist_total_waitlist_add[OF tn l one])
  qed
  show ?thesis using u a b c d by blast
qed


text \<open>
  With twenty slots of which eighteen are used, registering the new team "Alpha" with
  five members puts two into the roster, \<open>slots_used\<close> becomes 20, and three wait, in
  the pair \<open>(alpha, 3)\<close>.
\<close>

theorem increase_fills_roster_then_waitlist_witness:
  "checks_pass rep ''Alpha'' 5 False nearly_full_store \<and>
   get_event nearly_full_store = Some nearly_full_event \<and>
   (0::int) < 5 \<and>
   0 < 5 - (roster_size (lower (strip ''Alpha'')) (teams nearly_full_event) +
            waitlist_total (lower (strip ''Alpha'')) (waitlist nearly_full_event)) \<and>
   length (filter (\<lambda>(n, sz). lower n = lower (strip ''Alpha'')) (waitlist nearly_full_event)) \<le> 1 \<and>
   update_team_size rep ''Alpha'' 5 False nearly_full_store =
     Inr (True,
          \<lparr>event_data =
             Some (nearly_full_event\<lparr>teams := [(''x'', 9), (''y'', 9), (''alpha'', 2)],
                                     waitlist := [(''alpha'', 3)], slots_used := 20\<rparr>),
           user_team_assignments = [(''7'', ''alpha'')]\<rparr>) \<and>
   waitlist_total ''alpha'' (waitlist (update_increase ''alpha'' 5 0 nearly_full_event)) = 3"
proof -
  have h1: "checks_pass rep ''Alpha'' 5 False nearly_full_store" by code_simp
  have h2: "get_event nearly_full_store = Some nearly_full_event" by code_simp
  have h3: "(0::int) < 5" by simp
  have h4: "0 < 5 - (roster_size (lower (strip ''Alpha'')) (teams nearly_full_event) +
                     waitlist_total (lower (strip ''Alpha'')) (waitlist nearly_full_event))"
    by code_simp
  have h5: "length (filter (\<lambda>(n, sz). lower n = lower (strip ''Alpha''))
                      (waitlist nearly_full_event)) \<le> 1"
    by code_simp
  have n: "lower (strip ''Alpha'') = ''alpha''" by code_simp
  have r: "roster_size ''alpha'' (teams nearly_full_event) = 0" by code_simp
  have w: "waitlist_total ''alpha'' (waitlist nearly_full_event) = 0" by code_simp
  have m: "min (5::int) (max_slots nearly_full_event - slots_used nearly_full_event) = 2"
    by code_simp
  have e: "(nearly_full_store
             \<lparr>user_team_assignments :=
                dict_set (user_id rep) ''alpha'' (user_team_assignments nearly_full_store)\<rparr>)
             \<lparr>event_data := Some (update_increase ''alpha'' 5 0 nearly_full_event)\<rparr> =
           \<lparr>event_data =
              Some (nearly_full_event\<lparr>teams := [(''x'', 9), (''y'', 9), (''alpha'', 2)],
                                      waitlist := [(''alpha'', 3)], slots_used := 20\<rparr>),
            user_team_assignments = [(''7'', ''alpha'')]\<rparr>"
    by code_simp
  note t = increase_fills_roster_then_waitlist[OF h1 h2 h3 h4, unfolded n r w]
  have u: "update_team_size rep ''Alpha'' 5 False nearly_full_store =
           Inr (True,
                (nearly_full_store
                   \<lparr>user_team_assignments :=
                      dict_set (user_id rep) ''alpha'' (user_team_assignments nearly_full_store)\<rparr>)
                   \<lparr>event_data := Some (update_increase ''alpha'' 5 0 nearly_full_event)\<rparr>)"
    using t by simp
  have u': "update_team_size rep ''Alpha'' 5 False nearly_full_store =
     Inr (True,
          \<lparr>event_data =
             Some (nearly_full_event\<lparr>teams := [(''x'', 9), (''y'', 9), (''alpha'', 2)],
                                     waitlist := [(''alpha'', 3)], slots_used := 20\<rparr>),
           user_team_assignments = [(''7'', ''alpha'')]\<rparr>)"
    by (simp only: u e)
  have "length (filter (\<lambda>(n, sz). lower n = ''alpha'') (waitlist nearly_full_event)) \<le> 1"
    using h5 by (simp only: n)
  with t have "waitlist_total ''alpha'' (waitlist (update_increase ''alpha'' (5 - (0 + 0)) 0 nearly_full_event)) =
               0 + (5 - (0 + 0) - min (5 - (0 + 0)) (max_slots nearly_full_event - slots_used nearly_full_event))"
    by blast
  then have v: "waitlist_total ''alpha'' (waitlist (update_increase ''alpha'' 5 0 nearly_full_event)) = 3"
    using m by simp
  show ?thesis by (intro conjI) (rule h1 h2 h3 h4 h5 u' v)+
qed

text \<open>
  The claim as it was stated names the waitlist entry \<open>("Alpha", 3, id)\<close>. The entry
  the code appends is the pair \<open>(alpha, 3)\<close>: \<open>update_team_size\<close> lower-cases the name
  before it stores anything and keeps no id, so neither the waitlist nor the roster has
  an entry named "Alpha".
\<close>

theorem increase_keeps_case_counterexample:
  "update_team_size rep ''Alpha'' 5 False nearly_full_store =
     Inr (True,
          \<lparr>event_data =
             Some (nearly_full_event\<lparr>teams := [(''x'', 9), (''y'', 9), (''alpha'', 2)],
                                     waitlist := [(''alpha'', 3)], slots_used := 20\<rparr>),
           user_team_assignments = [(''7'', ''alpha'')]\<rparr>) \<and>
   (''Alpha'', 3) \<notin> set [(''alpha'', 3::int)] \<and>
   ''Alpha'' \<notin> set (map fst [(''x'', 9::int), (''y'', 9), (''alpha'', 2)])"
  by code_simp

text \<open>
  C6, as amended. When an accepted increase sends \<open>to_waitlist > 0\<close> members of team T
  to the waitlist and T has at most one waitlist entry: if T has no entry, the pair
  (lower-cased name, \<open>to_waitlist\<close>) is appended to the end of the waitlist; if T has
  an entry, nothing is appended and that entry grows by \<open>to_waitlist\<close> in place.
\<close>

theorem increase_appends_or_merges:
  fixes ia :: interaction and team_name :: string and new_size :: int and is_admin :: bool
    and s :: state and ev :: event
  defines "tn \<equiv> lower (strip team_name)"
  defines "cur_total \<equiv> roster_size tn (teams ev) + waitlist_total tn (waitlist ev)"
  defines "delta \<equiv> new_size - cur_total"
  defines "to_waitlist \<equiv> delta - min delta (max_slots ev - slots_used ev)"
  defines "ev' \<equiv> update_increase tn delta (waitlist_total tn (waitlist ev)) ev"
  assumes "checks_pass ia team_name new_size is_admin s" and "get_event s = Some ev"
    and "0 < new_size" and "0 < delta" and "0 < to_waitlist"
    and "length (filter (\<lambda>(n, sz). lower n = tn) (waitlist ev)) \<le> 1"
  shows "update_team_size ia team_name new_size is_admin s =
           Inr (True,
                (if cur_total = 0 then
                   s\<lparr>user_team_assignments := dict_set (user_id ia) tn (user_team_assignments s)\<rparr>
                 else s)\<lparr>event_data := Some ev'\<rparr>) \<and>
         waitlist ev' =
           (case find_waitlist tn 0 (waitlist ev) of
              None \<Rightarrow> waitlist ev @ [(tn, to_waitlist)]
            | Some (wn, i) \<Rightarrow> (waitlist ev)[i := (wn, snd (waitlist ev ! i) + to_waitlist)])"
proof -
  have tn: "tn \<noteq> []" unfolding tn_def by (rule checks_pass_name[OF assms(6)])
  have lt: "cur_total < new_size" using assms(9) unfolding delta_def by simp
  have u: "update_team_size ia team_name new_size is_admin s =
           Inr (True,
                (if cur_total = 0 then
                   s\<lparr>user_team_assignments := dict_set (user_id ia) tn (user_team_assignments s)\<rparr>
                 else s)\<lparr>event_data := Some ev'\<rparr>)"
    using update_team_size_increase[OF assms(6,7,8) lt[unfolded cur_total_def tn_def]]
    unfolding ev'_def delta_def cur_total_def tn_def .
  have over: "\<not> delta \<le> max_slots ev - slots_used ev"
    using assms(10) unfolding to_waitlist_def by simp
  then have tw: "to_waitlist = delta - (max_slots ev - slots_used ev)"
    unfolding to_waitlist_def by simp
  have "waitlist ev' = waitlist_add tn (waitlist_total tn (waitlist ev)) to_waitlist (waitlist ev)"
    unfolding ev'_def tw using over by (simp add: update_increase_fields(4))
  then have w: "waitlist ev' =
           (case find_waitlist tn 0 (waitlist ev) of
              None \<Rightarrow> waitlist ev @ [(tn, to_waitlist)]
            | Some (wn, i) \<Rightarrow> (waitlist ev)[i := (wn, snd (waitlist ev ! i) + to_waitlist)])"
    by (simp add: waitlist_add_single[OF tn assms(11)])
  show ?thesis using u w by blast
qed

text \<open>
  Team alpha has five members waiting on the full event; raising it to seven turns its
  entry into \<open>(alpha, 7)\<close>.
\<close>

theorem increase_appends_or_merges_witness:
  "checks_pass rep ''alpha'' 7 False waiting_store \<and>
   get_event waiting_store = Some waiting_event \<and>
   (0::int) < 7 \<and>
   0 < 7 - (roster_size (lower (strip ''alpha'')) (teams waiting_event) +
            waitlist_total (lower (strip ''alpha'')) (waitlist waiting_event)) \<and>
   0 < 7 - (roster_size (lower (strip ''alpha'')) (teams waiting_event) +
            waitlist_total (lower (strip ''alpha'')) (waitlist waiting_event)) -
       min (7 - (roster_size (lower (strip ''alpha'')) (teams waiting_event) +
                 waitlist_total (lower (strip ''alpha'')) (waitlist waiting_event)))
           (max_slots waiting_event - slots_used waiting_event) \<and>
   length (filter (\<lambda>(n, sz). lower n = lower (strip ''alpha'')) (waitlist waiting_event)) \<le> 1 \<and>
   waitlist (update_increase ''alpha'' 2 5 waiting_event) = [(''alpha'', 7)] \<and>
   update_team_size rep ''alpha'' 7 False waiting_store =
     Inr (True, waiting_store\<lparr>event_data := Some (update_increase ''alpha'' 2 5 waiting_event)\<rparr>)"
proof -
  have h1: "checks_pass rep ''alpha'' 7 False waiting_store" by code_simp
  have h2: "get_event waiting_store = Some waiting_event" by code_simp
  have h3: "(0::int) < 7" by simp
  have h4: "0 < 7 - (roster_size (lower (strip ''alpha'')) (teams waiting_event) +
                     waitlist_total (lower (strip ''alpha'')) (waitlist waiting_event))"
    by code_simp
  have h5: "0 < 7 - (roster_size (lower (strip ''alpha'')) (teams waiting_event) +
                     waitlist_total (lower (strip ''alpha'')) (waitlist waiting_event)) -
                min (7 - (roster_size (lower (strip ''alpha'')) (teams waiting_event) +
                          waitlist_total (lower (strip ''alpha'')) (waitlist waiting_event)))
                    (max_slots waiting_event - slots_used waiting_event)"
    by code_simp
  have h6: "length (filter (\<lambda>(n, sz). lower n = lower (strip ''alpha''))
                      (waitlist waiting_event)) \<le> 1"
    by code_simp
  have n: "lower (strip ''alpha'') = ''alpha''" by code_simp
  have r: "roster_size ''alpha'' (teams waiting_event) = 0" by code_simp
  have w: "waitlist_total ''alpha'' (waitlist waiting_event) = 5" by code_simp
  have m: "min (2::int) (max_slots waiting_event - slots_used waiting_event) = 0" by code_simp
  have f: "find_waitlist ''alpha'' 0 (waitlist waiting_event) = Some (''alpha'', 0)" by code_simp
  have l: "(waitlist waiting_event)[0 := (''alpha'', snd (waitlist waiting_event ! 0) + 2)] =
           [(''alpha'', 7)]"
    by code_simp
  note t = increase_appends_or_merges[OF h1 h2 h3 h4 h5 h6, unfolded n r w f]
  have u: "update_team_size rep ''alpha'' 7 False waiting_store =
     Inr (True, waiting_store\<lparr>event_data := Some (update_increase ''alpha'' 2 5 waiting_event)\<rparr>)"
    using t by simp
  have "waitlist (update_increase ''alpha'' (7 - (0 + 5)) 5 waiting_event) =
          (waitlist waiting_event)
            [0 := (''alpha'', snd (waitlist waiting_event ! 0) +
                     (7 - (0 + 5) - min (7 - (0 + 5)) (max_slots waiting_event - slots_used waiting_event)))]"
    using t by simp
  then have v: "waitlist (update_increase ''alpha'' 2 5 waiting_event) = [(''alpha'', 7)]"
    using m l by simp
  show ?thesis by (intro conjI) (rule h1 h2 h3 h4 h5 h6 u v)+
qed

text \<open>
  The claim as it was stated appends a second entry and leaves the first alone, which
  would give \<open>[(alpha, 5), (alpha, 2)]\<close>; the code gives \<open>[(alpha, 7)]\<close>.
\<close>

theorem increase_appends_counterexample:
  "update_team_size rep ''alpha'' 7 False waiting_store =
     Inr (True,
          \<lparr>event_data = Some (waiting_event\<lparr>waitlist := [(''alpha'', 7)]\<rparr>),
           user_team_assignments = [(''7'', ''alpha'')]\<rparr>) \<and>
   [(''alpha'', 7::int)] \<noteq> [(''alpha'', 5), (''alpha'', 2)]"
  by code_simp

section \<open>The invariant of the store\<close>


lemma sum_nonneg_list: "list_all (\<lambda>(n, k). (0::int) \<le> k) d \<Longrightarrow> 0 \<le> sum_list (map snd d)"
  by (induction d) auto

lemma dict_get_nonneg: "list_all (\<lambda>(n, k). (0::int) \<le> k) d \<Longrightarrow> 0 \<le> dict_get n 0 d"
  by (induction d) (auto simp: dict_get_def)

lemma dict_set_nonneg:
  "list_all (\<lambda>(n, k). (0::int) \<le> k) d \<Longrightarrow> 0 \<le> v \<Longrightarrow>
   list_all (\<lambda>(n, k). 0 \<le> k) (dict_set n v d)"
  by (induction d) auto

lemma dict_pop_nonneg:
  "list_all (\<lambda>(n, k). (0::int) \<le> k) d \<Longrightarrow> list_all (\<lambda>(n, k). 0 \<le> k) (dict_pop n d)"
  by (induction d) auto

lemma event_inv_nonneg: 
  "slots_used ev = sum_list (map snd (teams ev)) \<Longrightarrow> list_all (\<lambda>(n, sz). 0 \<le> sz) (teams ev) \<Longrightarrow>
   0 \<le> slots_used ev"
  by (simp add: sum_nonneg_list)

lemma event_inv_fields:
  assumes "event_inv D ev"
  shows "slots_used ev = sum_list (map snd (teams ev))" "0 \<le> slots_used ev"
    "slots_used ev \<le> max_slots ev" "max_slots ev \<le> D"
    "list_all (\<lambda>(n, sz). 0 \<le> sz) (teams ev)" "list_all (\<lambda>(n, sz). 0 < sz) (waitlist ev)"
  using assms by (simp_all add: event_inv_def)

lemma event_invI:
  assumes "slots_used ev = sum_list (map snd (teams ev))"
    "slots_used ev \<le> max_slots ev" "max_slots ev \<le> D"
    "list_all (\<lambda>(n, sz). 0 \<le> sz) (teams ev)" "list_all (\<lambda>(n, sz). 0 < sz) (waitlist ev)"
  shows "event_inv D ev"
  using assms event_inv_nonneg[OF assms(1,4)] by (simp add: event_inv_def)

lemma process_loop_inv:
  assumes "event_inv D ev" and "freed \<le> max_slots ev - slots_used ev"
  shows "event_inv D (fst (process_loop freed ev pr))"
  using assms
proof (induction freed ev pr rule: process_loop.induct)
  case (1 free_slots ev processed)
  note i = event_inv_fields[OF "1.prems"(1)]
  show ?case
  proof (cases "waitlist ev")
    case Nil
    then show ?thesis using "1.prems"(1) by (subst process_loop.simps) simp
  next
    case (Cons e rest)
    obtain n sz where e: "e = (n, sz)" by (cases e)
    have w: "waitlist ev = (n, sz) # rest" using Cons e by simp
    have sz: "0 < sz" and r: "list_all (\<lambda>(n, sz). 0 < sz) rest" using i(6) w by auto
    show ?thesis
    proof (cases "free_slots > 0")
      case False
      then show ?thesis using w "1.prems"(1) by (subst process_loop.simps) simp
    next
      case pos: True
      show ?thesis
      proof (cases "sz \<le> free_slots")
        case True
        let ?ev = "ev\<lparr>waitlist := rest, slots_used := slots_used ev + sz,
                       teams := dict_set n (dict_get n 0 (teams ev) + sz) (teams ev)\<rparr>"
        have nn: "0 \<le> dict_get n 0 (teams ev) + sz"
          using dict_get_nonneg[OF i(5)] sz by simp
        have t: "list_all (\<lambda>(n, k). 0 \<le> k) (teams ?ev)"
          using dict_set_nonneg[OF i(5) nn] by simp
        have inv: "event_inv D ?ev"
          by (rule event_invI) (use i r t True "1.prems"(2) in \<open>simp_all add: sum_dict_set\<close>)
        have le: "free_slots - sz \<le> max_slots ?ev - slots_used ?ev"
          using "1.prems"(2) by simp
        have "event_inv D (fst (process_loop (free_slots - sz) ?ev (processed @ [(n, sz)])))"
          by (rule "1.IH"[OF w refl pos True inv le])
        then show ?thesis using w pos True by (subst process_loop.simps) simp
      next
        case False
        let ?ev = "ev\<lparr>waitlist := (n, sz - free_slots) # rest,
                       slots_used := slots_used ev + free_slots,
                       teams := dict_set n (dict_get n 0 (teams ev) + free_slots) (teams ev)\<rparr>"
        have nn: "0 \<le> dict_get n 0 (teams ev) + free_slots"
          using dict_get_nonneg[OF i(5)] pos by simp
        have t: "list_all (\<lambda>(n, k). 0 \<le> k) (teams ?ev)"
          using dict_set_nonneg[OF i(5) nn] by simp
        have inv: "event_inv D ?ev"
          by (rule event_invI) (use i r t False "1.prems"(2) in \<open>simp_all add: sum_dict_set\<close>)
        then show ?thesis using w pos False by (subst process_loop.simps) simp
      qed
    qed
  qed
qed

lemma state_inv_Some: "state_inv D s \<Longrightarrow> event_data s = Some ev \<Longrightarrow> event_inv D ev"
  by (simp add: state_inv_def)

lemma state_inv_set: "event_inv D ev \<Longrightarrow> state_inv D (s\<lparr>event_data := Some ev\<rparr>)"
  by (simp add: state_inv_def)

lemma state_inv_assignments:
  "state_inv D (s\<lparr>user_team_assignments := a\<rparr>) = state_inv D s"
  by (simp add: state_inv_def)

lemma process_waitlist_after_change_inv:
  assumes "state_inv D s"
    and "\<And>ev. event_data s = Some ev \<Longrightarrow> freed \<le> max_slots ev - slots_used ev"
  shows "state_inv D (process_waitlist_after_change freed s)"
proof (cases "get_event s")
  case None
  then show ?thesis using assms(1) by (simp add: process_waitlist_after_change_def)
next
  case (Some ev)
  have e: "event_data s = Some ev" by (rule get_event_Some[OF Some])
  have "event_inv D (fst (process_loop freed ev []))"
    by (rule process_loop_inv[OF state_inv_Some[OF assms(1) e] assms(2)[OF e]])
  then show ?thesis
    using Some assms(1) by (simp add: process_waitlist_after_change_def state_inv_set)
qed

lemma waitlist_total_nonneg:
  "list_all (\<lambda>(n, sz). 0 < sz) wl \<Longrightarrow> 0 \<le> waitlist_total tn wl"
  by (induction wl) (auto simp: waitlist_total_def)

lemma find_item_mem: "find_item tn d = Some (rn, v) \<Longrightarrow> (rn, v) \<in> set d"
  by (induction d) (auto split: if_splits)

lemma find_item_value_nonneg:
  assumes "find_item tn d = Some (rn, v)" and "list_all (\<lambda>(n, k). (0::int) \<le> k) d"
  shows "0 \<le> v"
  using find_item_mem[OF assms(1)] assms(2) by (auto simp: list_all_iff)

lemma roster_add_nonneg:
  assumes "list_all (\<lambda>(n, k). (0::int) \<le> k) d" and "0 \<le> k"
  shows "list_all (\<lambda>(n, k). 0 \<le> k) (roster_add tn k d)"
proof (cases "find_item tn d")
  case None
  then show ?thesis using assms by (simp add: roster_add_def dict_set_nonneg)
next
  case (Some a)
  obtain rn v where a: "a = (rn, v)" by (cases a)
  have "0 \<le> v" by (rule find_item_value_nonneg[OF Some[unfolded a] assms(1)])
  then have "0 \<le> v + k" using assms(2) by simp
  then show ?thesis using Some a assms by (simp add: roster_add_def dict_set_nonneg)
qed

lemma list_all_update:
  "list_all P xs \<Longrightarrow> P x \<Longrightarrow> list_all P (xs[i := x])"
  by (induction xs arbitrary: i) (auto split: nat.splits)

lemma list_all_list_pop: "list_all P xs \<Longrightarrow> list_all P (list_pop i xs)"
  by (auto simp: list_pop_def list_all_iff dest: in_set_takeD in_set_dropD)

lemma waitlist_add_positive:
  assumes "list_all (\<lambda>(n, sz). (0::int) < sz) wl" and "0 < k" and "0 \<le> ws"
  shows "list_all (\<lambda>(n, sz). 0 < sz) (waitlist_add tn ws k wl)"
proof (cases "find_waitlist tn 0 wl")
  case None
  then show ?thesis using assms by (simp add: waitlist_add_def)
next
  case (Some a)
  obtain wn i where a: "a = (wn, i)" by (cases a)
  have "list_all (\<lambda>(n, sz). 0 < sz) (wl[i := (wn, ws + k)])"
    by (rule list_all_update[OF assms(1)]) (use assms(2,3) in simp)
  then show ?thesis using Some a assms by (simp add: waitlist_add_def)
qed

lemma update_increase_inv:
  assumes "event_inv D ev" and "0 < delta" and "tn \<noteq> []" and "lower tn = tn"
  shows "event_inv D (update_increase tn delta (waitlist_total tn (waitlist ev)) ev)"
proof -
  note i = event_inv_fields[OF assms(1)]
  let ?to = "min delta (max_slots ev - slots_used ev)"
  let ?ev = "update_increase tn delta (waitlist_total tn (waitlist ev)) ev"
  have to: "0 \<le> ?to" using assms(2) i(3) by simp
  have s: "slots_used ?ev = sum_list (map snd (teams ?ev))"
    using i(1) by (simp add: update_increase_fields sum_roster_add[OF assms(4,3)])
  have le: "slots_used ?ev \<le> max_slots ?ev"
    by (simp add: update_increase_fields)
  have m: "max_slots ?ev \<le> D" using i(4) by (simp add: update_increase_fields)
  have t: "list_all (\<lambda>(n, sz). 0 \<le> sz) (teams ?ev)"
    unfolding update_increase_fields by (rule roster_add_nonneg[OF i(5) to])
  have w: "list_all (\<lambda>(n, sz). 0 < sz) (waitlist ?ev)"
  proof (cases "delta \<le> max_slots ev - slots_used ev")
    case True
    then show ?thesis using i(6) by (simp add: update_increase_fields)
  next
    case False
    then have "0 < delta - (max_slots ev - slots_used ev)" by simp
    from waitlist_add_positive[OF i(6) this waitlist_total_nonneg[OF i(6)]]
    show ?thesis using False by (simp add: update_increase_fields)
  qed
  show ?thesis by (rule event_invI[OF s le m t w])
qed

lemma dict_get_absent_key: "k \<notin> set (map fst d) \<Longrightarrow> dict_get k dflt d = dflt"
proof -
  assume "k \<notin> set (map fst d)"
  then have "map_of d k = None" by (simp add: map_of_eq_None_iff)
  then show ?thesis by (simp add: dict_get_def)
qed

lemma admin_assign_inv: "state_inv D (admin_assign uid team_name s) = state_inv D s"
  by (simp add: admin_assign_def state_inv_def split: option.splits)

lemma admin_add_team_inv:
  assumes "state_inv D s" and "admin_add_team team_name sz uid force_waitlist s = (ok, s')"
  shows "state_inv D s'"
proof (cases "get_event s")
  case None
  then show ?thesis using assms by (simp add: admin_add_team_def)
next
  case (Some ev)
  have e: "event_data s = Some ev" by (rule get_event_Some[OF Some])
  note i = event_inv_fields[OF state_inv_Some[OF assms(1) e]]
  show ?thesis
  proof (cases "team_name \<in> set (map fst (teams ev)) \<or> team_name \<in> set (map fst (waitlist ev)) \<or>
                sz \<le> 0 \<or> sz > max_team_size ev")
    case True
    have "admin_add_team team_name sz uid force_waitlist s = (False, s)"
    proof (cases "team_name \<in> set (map fst (teams ev))")
      case True
      then show ?thesis using Some by (simp add: admin_add_team_def)
    next
      case t: False
      show ?thesis
      proof (cases "team_name \<in> set (map fst (waitlist ev))")
        case True
        then show ?thesis using Some t by (simp add: admin_add_team_def)
      next
        case False
        then have "sz \<le> 0 \<or> sz > max_team_size ev" using True t by blast
        then show ?thesis using Some t False by (simp add: admin_add_team_def)
      qed
    qed
    then have "s' = s" using assms(2) by simp
    then show ?thesis using assms(1) by simp
  next
    case False
    then have k: "team_name \<notin> set (map fst (teams ev))" and sz: "0 < sz" by auto
    have g: "dict_get team_name 0 (teams ev) = 0" by (rule dict_get_absent_key[OF k])
    let ?a = "max_slots ev - slots_used ev"
    let ?ev = "(if force_waitlist then ev\<lparr>waitlist := waitlist ev @ [(team_name, sz)]\<rparr>
               else if sz \<le> ?a then
                 ev\<lparr>slots_used := slots_used ev + sz, teams := dict_set team_name sz (teams ev)\<rparr>
               else if ?a > 0 then
                 ev\<lparr>slots_used := slots_used ev + ?a,
                     teams := dict_set team_name ?a (teams ev),
                     waitlist := waitlist ev @ [(team_name, sz - ?a)]\<rparr>
               else ev\<lparr>waitlist := waitlist ev @ [(team_name, sz)]\<rparr>)"
    have "event_inv D ?ev"
      using i sz by (auto simp: event_inv_def sum_dict_set g dict_set_nonneg)
    then have "state_inv D (s\<lparr>event_data := Some ?ev\<rparr>)" by (rule state_inv_set)
    moreover have "s' = admin_assign uid team_name (s\<lparr>event_data := Some ?ev\<rparr>)"
      using assms(2) Some False by (simp add: admin_add_team_def Let_def)
    ultimately show ?thesis by (simp add: admin_assign_inv)
  qed
qed

lemma close_command_inv:
  assumes "state_inv D s"
  shows "state_inv D (close_command organizer s)"
proof (cases "get_event s")
  case None
  then show ?thesis using assms by (simp add: close_command_def)
next
  case (Some ev)
  have e: "event_data s = Some ev" by (rule get_event_Some[OF Some])
  note i = event_inv_fields[OF state_inv_Some[OF assms e]]
  have "event_inv D (ev\<lparr>max_slots := slots_used ev\<rparr>)"
    using i by (simp add: event_inv_def)
  then show ?thesis using Some assms by (simp add: close_command_def state_inv_set)
qed

lemma open_command_inv:
  assumes "state_inv D s"
  shows "state_inv D (open_command D organizer s)"
proof (cases "get_event s")
  case None
  then show ?thesis using assms by (simp add: open_command_def)
next
  case (Some ev)
  have e: "event_data s = Some ev" by (rule get_event_Some[OF Some])
  note i = event_inv_fields[OF state_inv_Some[OF assms e]]
  let ?s1 = "s\<lparr>event_data := Some (ev\<lparr>max_slots := D\<rparr>)\<rparr>"
  have "event_inv D (ev\<lparr>max_slots := D\<rparr>)"
    using i by (simp add: event_inv_def)
  then have s1: "state_inv D ?s1" by (rule state_inv_set)
  have "state_inv D (process_waitlist_after_change (D - slots_used ev) ?s1)"
    by (rule process_waitlist_after_change_inv[OF s1]) simp
  then show ?thesis using Some assms s1 by (simp add: open_command_def Let_def)
qed

lemma create_event_internal_inv:
  assumes "state_inv D s" and "0 \<le> D"
  shows "state_inv D (create_event_internal D M nm dt event_date s)"
  using assms
  by (auto simp: create_event_internal_def state_inv_def event_inv_def split: option.splits)

lemma sweep_loop_inv:
  "event_inv D ev \<Longrightarrow> available \<le> max_slots ev - slots_used ev \<Longrightarrow>
   event_inv D (sweep_loop available ev)"
proof (induction available ev rule: sweep_loop.induct)
  case (1 available_slots ev)
  note i = event_inv_fields[OF "1.prems"(1)]
  show ?case
  proof (cases "waitlist ev")
    case Nil
    then show ?thesis using "1.prems"(1) by (subst sweep_loop.simps) simp
  next
    case (Cons a rest)
    obtain n sz where a: "a = (n, sz)" by (cases a)
    show ?thesis
    proof (cases "available_slots > 0 \<and> sz \<le> available_slots")
      case False
      then show ?thesis using "1.prems"(1) Cons a by (subst sweep_loop.simps) auto
    next
      case True
      let ?ev = "ev\<lparr>waitlist := rest, slots_used := slots_used ev + sz,
                    teams := dict_set n (dict_get n 0 (teams ev) + sz) (teams ev)\<rparr>"
      have sz: "0 < sz" using i(6) Cons a by simp
      have "0 \<le> dict_get n 0 (teams ev) + sz" using dict_get_nonneg[OF i(5)] sz by simp
      then have t: "list_all (\<lambda>(n, sz). 0 \<le> sz) (teams ?ev)"
        using dict_set_nonneg[OF i(5)] by simp
      have inv: "event_inv D ?ev"
        using i True "1.prems"(2) Cons a t
        by (intro event_invI) (simp_all add: sum_dict_set)
      have b: "available_slots - sz \<le> max_slots ?ev - slots_used ?ev"
        using "1.prems"(2) by simp
      have "event_inv D (sweep_loop (available_slots - sz) ?ev)"
        by (rule "1.IH"[OF Cons[unfolded a] refl True inv b])
      then show ?thesis using True Cons a by (subst sweep_loop.simps) simp
    qed
  qed
qed

lemma check_waitlist_and_expiry_inv:
  assumes "state_inv D s"
  shows "state_inv D (check_waitlist_and_expiry now s)"
proof (cases "get_event s")
  case None
  then show ?thesis using assms by (simp add: check_waitlist_and_expiry_def)
next
  case (Some ev)
  have e: "event_data s = Some ev" by (rule get_event_Some[OF Some])
  have inv: "event_inv D ev" by (rule state_inv_Some[OF assms e])
  have "event_inv D (sweep_loop (max_slots ev - slots_used ev) ev)"
    by (rule sweep_loop_inv[OF inv]) simp
  then show ?thesis
    using Some assms
    by (auto simp: check_waitlist_and_expiry_def state_inv_def split: option.splits)
qed

lemma update_decrease_inv:
  assumes inv: "event_inv D ev" and tn: "tn \<noteq> []"
    and ns: "0 < new_size"
    and lt: "new_size < roster_size tn (teams ev) + waitlist_total tn (waitlist ev)"
  shows "event_inv D
           (update_decrease tn (new_size - (roster_size tn (teams ev) + waitlist_total tn (waitlist ev)))
              (roster_size tn (teams ev)) (waitlist_total tn (waitlist ev)) ev) \<and>
         event_reduction_of
           (new_size - (roster_size tn (teams ev) + waitlist_total tn (waitlist ev)))
           (waitlist_total tn (waitlist ev))
         \<le> max_slots
              (update_decrease tn (new_size - (roster_size tn (teams ev) + waitlist_total tn (waitlist ev)))
                 (roster_size tn (teams ev)) (waitlist_total tn (waitlist ev)) ev) -
            slots_used
              (update_decrease tn (new_size - (roster_size tn (teams ev) + waitlist_total tn (waitlist ev)))
                 (roster_size tn (teams ev)) (waitlist_total tn (waitlist ev)) ev)"
proof -
  note i = event_inv_fields[OF inv]
  define es where "es = roster_size tn (teams ev)"
  define ws where "ws = waitlist_total tn (waitlist ev)"
  define sd where "sd = new_size - (es + ws)"
  define wr where "wr = waitlist_reduction_of sd ws"
  define er where "er = event_reduction_of sd ws"
  have ws0: "0 \<le> ws" unfolding ws_def by (rule waitlist_total_nonneg[OF i(6)])
  have lt': "new_size < es + ws" using lt unfolding es_def ws_def .
  have wr: "wr = min ws (es + ws - new_size)"
    using lt' unfolding wr_def sd_def waitlist_reduction_of_def by simp
  have er: "er = es + ws - new_size - wr"
    using lt' unfolding er_def wr_def sd_def event_reduction_of_def by simp
  have er_cases: "er = 0 \<or> (er = es - new_size \<and> 0 < er)"
    unfolding er wr by (auto simp: min_def)
  have wr_pos: "0 < wr \<Longrightarrow> ws - wr > 0 \<or> ws - wr = 0" unfolding wr by (auto simp: min_def)
  define ev1 where "ev1 =
     (case find_waitlist tn 0 (waitlist ev) of
        None \<Rightarrow> ev
      | Some (waitlist_team_name, waitlist_index) \<Rightarrow>
          if wr > 0 \<and> waitlist_team_name \<noteq> [] then
            (if ws - wr > 0 then
               ev\<lparr>waitlist := (waitlist ev)[waitlist_index := (waitlist_team_name, ws - wr)]\<rparr>
             else ev\<lparr>waitlist := list_pop waitlist_index (waitlist ev)\<rparr>)
          else ev)"
  define ev' where "ev' =
     (case find_item tn (teams ev1) of
        None \<Rightarrow> ev1
      | Some (registered_team_name, v) \<Rightarrow>
          if er > 0 \<and> registered_team_name \<noteq> [] then
            (if es - er > 0 then
               ev1\<lparr>teams := dict_set registered_team_name (es - er) (teams ev1),
                    slots_used := slots_used ev1 - er\<rparr>
             else
               ev1\<lparr>teams := dict_pop registered_team_name (teams ev1),
                    slots_used := slots_used ev1 - v\<rparr>)
          else ev1)"
  have d: "update_decrease tn sd es ws ev = ev'"
    unfolding update_decrease_def Let_def ev'_def ev1_def wr_def er_def ..
  have f1: "teams ev1 = teams ev" "slots_used ev1 = slots_used ev" "max_slots ev1 = max_slots ev"
    unfolding ev1_def by (simp_all split: option.splits)
  have w1: "list_all (\<lambda>(n, sz). 0 < sz) (waitlist ev1)"
  proof (cases "find_waitlist tn 0 (waitlist ev)")
    case None
    then show ?thesis using i(6) by (simp add: ev1_def)
  next
    case (Some a)
    obtain wn j where a: "a = (wn, j)" by (cases a)
    show ?thesis
    proof (cases "wr > 0 \<and> wn \<noteq> []")
      case False
      then show ?thesis using Some a i(6) by (auto simp: ev1_def)
    next
      case True
      show ?thesis
      proof (cases "ws - wr > 0")
        case pos: True
        have "list_all (\<lambda>(n, sz). 0 < sz) ((waitlist ev)[j := (wn, ws - wr)])"
          by (rule list_all_update[OF i(6)]) (use pos in simp)
        then show ?thesis using Some a True pos by (simp add: ev1_def)
      next
        case False
        have "list_all (\<lambda>(n, sz). 0 < sz) (list_pop j (waitlist ev))"
          by (rule list_all_list_pop[OF i(6)])
        then show ?thesis using Some a True False by (simp add: ev1_def)
      qed
    qed
  qed
  have inv1: "event_inv D ev1"
    by (rule event_invI) (use i f1 w1 in simp_all)
  have r: "event_inv D ev' \<and> er \<le> max_slots ev' - slots_used ev'"
  proof (cases "find_item tn (teams ev)")
    case None
    then have "es = 0" by (simp add: es_def roster_size_def)
    then have "er = 0" using er_cases ns by auto
    moreover have "ev' = ev1" using None f1 by (simp add: ev'_def)
    ultimately show ?thesis using inv1 i f1 by simp
  next
    case (Some a)
    obtain rn v where a: "a = (rn, v)" by (cases a)
    have f: "find_item tn (teams ev) = Some (rn, v)" using Some a by simp
    have rn: "rn \<noteq> []" by (rule find_item_nonempty[OF f tn])
    have esv: "es = v" using f by (simp add: es_def roster_size_def)
    show ?thesis
    proof (cases "er > 0")
      case False
      then have "er = 0" using er_cases by auto
      moreover have "ev' = ev1" using f f1 False by (simp add: ev'_def)
      ultimately show ?thesis using inv1 i f1 by simp
    next
      case True
      then have e: "er = v - new_size" using er_cases esv by auto
      then have n: "es - er = new_size" using esv by simp
      have ev': "ev' = ev1\<lparr>teams := dict_set rn new_size (teams ev),
                            slots_used := slots_used ev - er\<rparr>"
        using f f1 True rn n ns by (simp add: ev'_def)
      have g: "dict_get rn 0 (teams ev) = v" by (rule dict_get_found[OF f])
      have t: "list_all (\<lambda>(n, sz). 0 \<le> sz) (dict_set rn new_size (teams ev))"
        by (rule dict_set_nonneg[OF i(5)]) (use ns in simp)
      have "event_inv D ev'"
        unfolding ev'
        by (rule event_invI) (use i f1 w1 t True e g in \<open>simp_all add: sum_dict_set\<close>)
      moreover have "er \<le> max_slots ev' - slots_used ev'"
        unfolding ev' using i f1 by simp
      ultimately show ?thesis by simp
    qed
  qed
  show ?thesis
    using r unfolding d[symmetric] er_def sd_def es_def ws_def .
qed


lemma update_unregister_inv:
  assumes "state_inv D s" and "event_data s = Some ev"
  shows "state_inv D (update_unregister tn (roster_size tn (teams ev)) ws ev s)"
proof -
  note i = event_inv_fields[OF state_inv_Some[OF assms]]
  define es where "es = roster_size tn (teams ev)"
  define ev1 where "ev1 =
     (if es > 0 then
        (case find_item tn (teams ev) of
           None \<Rightarrow> ev
         | Some (registered_name, registered_size) \<Rightarrow>
             ev\<lparr>teams := dict_pop registered_name (teams ev),
                 slots_used := slots_used ev - registered_size\<rparr>)
      else ev)"
  define ev2 where "ev2 =
     (if ws > 0 then
        ev1\<lparr>waitlist := filter (\<lambda>(wl_team, wl_size). lower wl_team \<noteq> tn) (waitlist ev1)\<rparr>
      else ev1)"
  define s1 where "s1 =
     s\<lparr>event_data := Some ev2,
        user_team_assignments :=
          filter (\<lambda>(uid, tname). lower tname \<noteq> tn) (user_team_assignments s)\<rparr>"
  have u: "update_unregister tn es ws ev s =
           (if es > 0 then process_waitlist_after_change es s1 else s1)"
    unfolding update_unregister_def Let_def s1_def ev2_def ev1_def ..
  have inv1: "event_inv D ev1 \<and> (0 < es \<longrightarrow> es \<le> max_slots ev1 - slots_used ev1)"
  proof (cases "es > 0")
    case False
    then show ?thesis using state_inv_Some[OF assms] by (simp add: ev1_def)
  next
    case True
    then obtain rn v where f: "find_item tn (teams ev) = Some (rn, v)"
      unfolding es_def roster_size_def by (cases "find_item tn (teams ev)") auto
    have v: "v = es" using f by (simp add: es_def roster_size_def)
    have e1: "ev1 = ev\<lparr>teams := dict_pop rn (teams ev), slots_used := slots_used ev - v\<rparr>"
      using True f by (simp add: ev1_def)
    have g: "dict_get rn 0 (teams ev) = v" by (rule dict_get_found[OF f])
    have "event_inv D ev1"
      unfolding e1
      by (rule event_invI)
         (use i True v g dict_pop_nonneg[OF i(5)] in \<open>simp_all add: sum_dict_pop\<close>)
    moreover have "es \<le> max_slots ev1 - slots_used ev1"
      unfolding e1 using i v by simp
    ultimately show ?thesis by simp
  qed
  have w2: "list_all (\<lambda>(n, sz). 0 < sz) (waitlist ev2)"
    using event_inv_fields(6)[OF conjunct1[OF inv1]] by (auto simp: ev2_def list_all_iff)
  have f2: "teams ev2 = teams ev1" "slots_used ev2 = slots_used ev1" "max_slots ev2 = max_slots ev1"
    by (simp_all add: ev2_def)
  have inv2: "event_inv D ev2"
    by (rule event_invI) (use event_inv_fields[OF conjunct1[OF inv1]] f2 w2 in simp_all)
  have s1: "state_inv D s1" unfolding s1_def using inv2 by (simp add: state_inv_def)
  have e: "event_data s1 = Some ev2" by (simp add: s1_def)
  show ?thesis
  proof (cases "es > 0")
    case False
    then show ?thesis using u s1 unfolding es_def by simp
  next
    case True
    have "state_inv D (process_waitlist_after_change es s1)"
    proof (rule process_waitlist_after_change_inv[OF s1])
      fix ev3
      assume "event_data s1 = Some ev3"
      then have "ev3 = ev2" using e by simp
      then show "es \<le> max_slots ev3 - slots_used ev3" using inv1 True f2 by simp
    qed
    then show ?thesis using u True unfolding es_def by simp
  qed
qed

lemma update_team_size_unchanged:
  assumes "checks_pass ia team_name new_size is_admin s" and "get_event s = Some ev"
    and "0 < new_size"
    and "new_size = roster_size (lower (strip team_name)) (teams ev) +
                    waitlist_total (lower (strip team_name)) (waitlist ev)"
  shows "update_team_size ia team_name new_size is_admin s = Inr (True, s)"
proof -
  let ?t = "roster_size (lower (strip team_name)) (teams ev) +
            waitlist_total (lower (strip team_name)) (waitlist ev)"
  have f: "new_size \<noteq> 0" "new_size - ?t = 0" "\<not> (?t = 0 \<and> new_size > 0)"
    using assms(3,4) by auto
  show ?thesis
    apply (simp only: update_team_size_accepted[OF assms(1,2)] Let_def)
    apply (simp only: f if_False if_True simp_thms)
    done
qed

lemma update_team_size_inv:
  assumes "state_inv D s" and "update_team_size ia team_name new_size is_admin s = Inr (ok, s')"
  shows "state_inv D s'"
proof (cases "checks_pass ia team_name new_size is_admin s")
  case False
  then have "s' = s" using update_team_size_rejected[OF False] assms(2) by simp
  then show ?thesis using assms(1) by simp
next
  case True
  then obtain ev where g: "get_event s = Some ev"
    by (auto simp: checks_pass_def split: option.splits)
  have e: "event_data s = Some ev" by (rule get_event_Some[OF g])
  have inv: "event_inv D ev" by (rule state_inv_Some[OF assms(1) e])
  let ?tn = "lower (strip team_name)"
  let ?es = "roster_size ?tn (teams ev)"
  let ?ws = "waitlist_total ?tn (waitlist ev)"
  have tn: "?tn \<noteq> []" by (rule checks_pass_name[OF True])
  have l: "lower ?tn = ?tn" by (rule lower_idem)
  have n0: "0 \<le> new_size" using checks_pass_guards(4)[OF True g] by simp
  show ?thesis
  proof (cases "new_size = 0")
    case z: True
    have "s' = update_unregister ?tn ?es ?ws ev s"
      using update_team_size_cancel[OF True[unfolded z] g] assms(2) z by simp
    then show ?thesis using update_unregister_inv[OF assms(1) e] by simp
  next
    case False
    then have pos: "0 < new_size" using n0 by simp
    consider (inc) "?es + ?ws < new_size" | (same) "new_size = ?es + ?ws"
      | (dec) "new_size < ?es + ?ws" by linarith
    then show ?thesis
    proof cases
      case inc
      have d: "0 < new_size - (?es + ?ws)" using inc by simp
      have "event_inv D (update_increase ?tn (new_size - (?es + ?ws)) ?ws ev)"
        by (rule update_increase_inv[OF inv d tn l])
      then have "state_inv D s'"
        using update_team_size_increase[OF True g pos inc] assms(2)
        by (auto simp: state_inv_def)
      then show ?thesis .
    next
      case same
      have "s' = s" using update_team_size_unchanged[OF True g pos same] assms(2) by simp
      then show ?thesis using assms(1) by simp
    next
      case dec
      let ?sd = "new_size - (?es + ?ws)"
      let ?ev = "update_decrease ?tn ?sd ?es ?ws ev"
      let ?s1 = "s\<lparr>event_data := Some ?ev\<rparr>"
      note di = update_decrease_inv[OF inv tn pos dec]
      have s1: "state_inv D ?s1" using di by (simp add: state_inv_def)
      have p: "state_inv D (process_waitlist_after_change (event_reduction_of ?sd ?ws) ?s1)"
        by (rule process_waitlist_after_change_inv[OF s1]) (use di in simp)
      have "s' = (if event_reduction_of ?sd ?ws > 0 then
                    process_waitlist_after_change (event_reduction_of ?sd ?ws) ?s1
                  else ?s1)"
        using update_team_size_decrease[OF True g pos dec] assms(2) by simp
      then show ?thesis using s1 p by simp
    qed
  qed
qed

lemma reachable_inv:
  assumes "0 \<le> D" and "reachable D M s"
  shows "state_inv D s"
  using assms(2)
proof (induction rule: reachable.induct)
  case (created nm dt d asg)
  have "state_inv D \<lparr>event_data = None, user_team_assignments = asg\<rparr>"
    by (simp add: state_inv_def)
  then show ?case by (rule create_event_internal_inv[OF _ assms(1)])
next
  case (set_team_size s ia team_name new_size is_admin ok s')
  then show ?case using update_team_size_inv by blast
next
  case (add_team s team_name sz uid force_waitlist ok s')
  then show ?case using admin_add_team_inv by blast
next
  case (promotion s now)
  then show ?case by (simp add: check_waitlist_and_expiry_inv)
next
  case (close_registration s organizer)
  then show ?case by (simp add: close_command_inv)
next
  case (open_registration s organizer)
  then show ?case by (simp add: open_command_inv)
next
  case (recreated s nm dt event_date)
  then show ?case by (simp add: create_event_internal_inv[OF _ assms(1)])
qed

text \<open>
  C1. In every store reachable from the creation of an event by \<open>update_team_size\<close>
  (registration, edit, cancellation), \<open>admin_add_team\<close>, the promotion and expiry pass
  of the background task, \<open>/close\<close> and \<open>/open\<close> (the promoter runs inside these
  operations), \<open>slots_used\<close> is the sum of the roster sizes and lies between zero and
  \<open>max_slots\<close>. The configured \<open>DEFAULT_MAX_SLOTS\<close> is taken to be non-negative.
\<close>

theorem slots_used_is_roster_sum:
  assumes "0 \<le> D" and "reachable D M s" and "event_data s = Some ev"
  shows "slots_used ev = sum_list (map snd (teams ev)) \<and>
         0 \<le> slots_used ev \<and> slots_used ev \<le> max_slots ev"
  using event_inv_fields(1,2,3)[OF state_inv_Some[OF reachable_inv[OF assms(1,2)] assms(3)]]
  by simp


text \<open>
  The store after creating an event with twenty slots and registering Alpha with five
  members is reachable, and its \<open>slots_used\<close> is five.
\<close>

theorem slots_used_is_roster_sum_witness:
  "(0::int) \<le> 20 \<and> reachable 20 9 registered_store \<and>
   event_data registered_store = Some registered_event \<and>
   slots_used registered_event = sum_list (map snd (teams registered_event)) \<and>
   0 \<le> slots_used registered_event \<and> slots_used registered_event \<le> max_slots registered_event"
proof -
  have h0: "(0::int) \<le> 20" by simp
  have h: "update_team_size rep ''Alpha'' 5 False
             (create_event_internal 20 9 ''cup'' ''01.01.2030'' (Some 0)
                \<lparr>event_data = None, user_team_assignments = []\<rparr>) =
           Inr (True, registered_store)"
    by code_simp
  have r: "reachable 20 9 registered_store"
    by (rule reachable.set_team_size[OF reachable.created h])
  have e: "event_data registered_store = Some registered_event"
    by (simp add: registered_store_def)
  show ?thesis
    using h0 r e slots_used_is_roster_sum[OF h0 r e] by blast
qed

section \<open>Cancelling and shrinking on well-formed stores\<close>


lemma filter_no_match:
  "list_all (\<lambda>(n, sz). (0::int) < sz) wl \<Longrightarrow> waitlist_total tn wl \<le> 0 \<Longrightarrow>
   filter (\<lambda>(n, sz). lower n \<noteq> tn) wl = wl"
proof (induction wl)
  case Nil
  then show ?case by simp
next
  case (Cons a wl)
  obtain n sz where a: "a = (n, sz)" by (cases a)
  have p: "list_all (\<lambda>(n, sz). 0 < sz) wl" and sz: "0 < sz" using Cons.prems(1) a by auto
  have nn: "0 \<le> waitlist_total tn wl" by (rule waitlist_total_nonneg[OF p])
  show ?case
  proof (cases "lower n = tn")
    case True
    then have "waitlist_total tn (a # wl) = sz + waitlist_total tn wl"
      using a by (simp add: waitlist_total_def)
    then show ?thesis using Cons.prems(2) sz nn by simp
  next
    case False
    then have "waitlist_total tn wl \<le> 0" using Cons.prems(2) a by (simp add: waitlist_total_def)
    then show ?thesis using Cons.IH[OF p] False a by simp
  qed
qed

text \<open>
  Cancelling a team whose roster entry has a positive size: the entry, every waitlist
  entry and every assignment of the team go, and the promoter runs with the roster size.
\<close>

lemma cancel_removes_team:
  assumes "checks_pass ia team_name 0 is_admin s" and "get_event s = Some ev"
    and "find_item (lower (strip team_name)) (teams ev) = Some (rn, v)" and "0 < v"
    and "list_all (\<lambda>(n, sz). 0 < sz) (waitlist ev)"
  shows "update_team_size ia team_name 0 is_admin s =
     Inr (True,
          process_waitlist_after_change v
            (s\<lparr>event_data :=
                 Some (ev\<lparr>teams := dict_pop rn (teams ev),
                          slots_used := slots_used ev - v,
                          waitlist := filter (\<lambda>(n, sz). lower n \<noteq> lower (strip team_name))
                                        (waitlist ev)\<rparr>),
               user_team_assignments :=
                 filter (\<lambda>(uid, tname). lower tname \<noteq> lower (strip team_name))
                   (user_team_assignments s)\<rparr>))"
proof -
  let ?tn = "lower (strip team_name)"
  have r: "roster_size ?tn (teams ev) = v" using assms(3) by (simp add: roster_size_def)
  have w: "(if waitlist_total ?tn (waitlist ev) > 0
            then filter (\<lambda>(n, sz). lower n \<noteq> ?tn) (waitlist ev) else waitlist ev) =
           filter (\<lambda>(n, sz). lower n \<noteq> ?tn) (waitlist ev)"
    using filter_no_match[OF assms(5), of ?tn] by auto
  have "update_unregister ?tn v (waitlist_total ?tn (waitlist ev)) ev s =
          process_waitlist_after_change v
            (s\<lparr>event_data :=
                 Some (ev\<lparr>teams := dict_pop rn (teams ev),
                          slots_used := slots_used ev - v,
                          waitlist := filter (\<lambda>(n, sz). lower n \<noteq> ?tn) (waitlist ev)\<rparr>),
               user_team_assignments :=
                 filter (\<lambda>(uid, tname). lower tname \<noteq> ?tn) (user_team_assignments s)\<rparr>)"
  proof (cases "waitlist_total ?tn (waitlist ev) > 0")
    case True
    then show ?thesis using assms(3,4) by (simp add: update_unregister_def)
  next
    case False
    then have "filter (\<lambda>(n, sz). lower n \<noteq> ?tn) (waitlist ev) = waitlist ev"
      using w by simp
    then show ?thesis using assms(3,4) False by (simp add: update_unregister_def)
  qed
  then show ?thesis
    using update_team_size_cancel[OF assms(1,2)] r by simp
qed

text \<open>
  A team with four members in the roster and three waiting is cancelled on a full event:
  both entries and the assignment go, and the team behind it gets four slots, not seven.
\<close>

lemma cancel_team_in_roster_and_waitlist:
  "update_team_size rep ''Tango'' 0 False both_store =
     Inr (True,
          \<lparr>event_data =
             Some (both_event\<lparr>teams := [(''x'', 16), (''b'', 4)], waitlist := [(''b'', 2)]\<rparr>),
           user_team_assignments = []\<rparr>)"
  by code_simp


lemma list_pop_simps:
  "list_pop 0 (a # xs) = xs" "list_pop (Suc k) (a # xs) = a # list_pop k xs"
  by (simp_all add: list_pop_def)

lemma waitlist_total_list_pop:
  "find_waitlist tn j wl = Some (wn, i) \<Longrightarrow>
   waitlist_total tn (list_pop (i - j) wl) = waitlist_total tn wl - snd (wl ! (i - j))"
proof (induction wl arbitrary: j)
  case Nil
  then show ?case by simp
next
  case (Cons a wl)
  obtain n sz where a: "a = (n, sz)" by (cases a)
  show ?case
  proof (cases "lower n = tn")
    case True
    then show ?thesis using Cons.prems a by (simp add: waitlist_total_def list_pop_simps)
  next
    case False
    then have f: "find_waitlist tn (Suc j) wl = Some (wn, i)" using Cons.prems a by simp
    from find_waitlist_index[OF f] have "Suc j \<le> i" by simp
    then have e: "i - j = Suc (i - Suc j)" by simp
    show ?thesis
      unfolding e using Cons.IH[OF f] False a by (simp add: waitlist_total_def list_pop_simps)
  qed
qed

text \<open>
  Shrinking a team that has at most one waitlist entry, on a waitlist of positive sizes:
  the waitlist entry gives up \<open>min(waitlist_size, reduction)\<close> members, the roster
  entry the rest, and the promoter runs with what the roster entry gave up.
\<close>

lemma decrease_drains_waitlist_first:
  fixes ia :: interaction and team_name :: string and new_size :: int and is_admin :: bool
    and s :: state and ev :: event
  defines "tn \<equiv> lower (strip team_name)"
  defines "es \<equiv> roster_size tn (teams ev)"
  defines "ws \<equiv> waitlist_total tn (waitlist ev)"
  defines "reduction \<equiv> es + ws - new_size"
  defines "waitlist_reduction \<equiv> min ws reduction"
  defines "event_reduction \<equiv> reduction - waitlist_reduction"
  defines "ev' \<equiv> update_decrease tn (new_size - (es + ws)) es ws ev"
  assumes cp: "checks_pass ia team_name new_size is_admin s" and g: "get_event s = Some ev"
    and ns: "0 < new_size" and lt: "new_size < es + ws"
    and pos: "list_all (\<lambda>(n, sz). 0 < sz) (waitlist ev)"
    and one: "length (filter (\<lambda>(n, sz). lower n = tn) (waitlist ev)) \<le> 1"
  shows "waitlist_total tn (waitlist ev') = ws - waitlist_reduction \<and>
         roster_size tn (teams ev') = es - event_reduction \<and>
         slots_used ev' = slots_used ev - event_reduction \<and>
         update_team_size ia team_name new_size is_admin s =
           Inr (True,
                if event_reduction > 0 then
                  process_waitlist_after_change event_reduction (s\<lparr>event_data := Some ev'\<rparr>)
                else s\<lparr>event_data := Some ev'\<rparr>)"
proof -
  have tn: "tn \<noteq> []" unfolding tn_def by (rule checks_pass_name[OF cp])
  have ws0: "0 \<le> ws" unfolding ws_def by (rule waitlist_total_nonneg[OF pos])
  have wr: "waitlist_reduction_of (new_size - (es + ws)) ws = waitlist_reduction"
    using lt unfolding waitlist_reduction_def reduction_def waitlist_reduction_of_def by simp
  have er: "event_reduction_of (new_size - (es + ws)) ws = event_reduction"
    using lt unfolding event_reduction_def reduction_def event_reduction_of_def wr by simp
  have er_cases: "event_reduction = 0 \<or> (event_reduction = es - new_size \<and> 0 < event_reduction)"
    unfolding event_reduction_def waitlist_reduction_def reduction_def by (auto simp: min_def)
  have wr_le: "waitlist_reduction \<le> ws" "0 \<le> waitlist_reduction"
    using ws0 lt unfolding waitlist_reduction_def reduction_def by auto
  define ev1 where "ev1 =
     (case find_waitlist tn 0 (waitlist ev) of
        None \<Rightarrow> ev
      | Some (waitlist_team_name, waitlist_index) \<Rightarrow>
          if waitlist_reduction > 0 \<and> waitlist_team_name \<noteq> [] then
            (if ws - waitlist_reduction > 0 then
               ev\<lparr>waitlist :=
                     (waitlist ev)[waitlist_index := (waitlist_team_name, ws - waitlist_reduction)]\<rparr>
             else ev\<lparr>waitlist := list_pop waitlist_index (waitlist ev)\<rparr>)
          else ev)"
  have d: "ev' =
     (case find_item tn (teams ev1) of
        None \<Rightarrow> ev1
      | Some (registered_team_name, v) \<Rightarrow>
          if event_reduction > 0 \<and> registered_team_name \<noteq> [] then
            (if es - event_reduction > 0 then
               ev1\<lparr>teams := dict_set registered_team_name (es - event_reduction) (teams ev1),
                    slots_used := slots_used ev1 - event_reduction\<rparr>
             else
               ev1\<lparr>teams := dict_pop registered_team_name (teams ev1),
                    slots_used := slots_used ev1 - v\<rparr>)
          else ev1)"
    unfolding ev'_def update_decrease_def Let_def ev1_def wr er ..
  have f1: "teams ev1 = teams ev" "slots_used ev1 = slots_used ev"
    unfolding ev1_def by (simp_all split: option.splits)
  have w1: "waitlist_total tn (waitlist ev1) = ws - waitlist_reduction"
  proof (cases "find_waitlist tn 0 (waitlist ev)")
    case None
    then have "filter (\<lambda>(n, sz). lower n = tn) (waitlist ev) = []"
      by (simp add: find_waitlist_None_iff)
    then have "ws = 0" unfolding ws_def waitlist_total_def by simp
    then have "waitlist_reduction = 0" using wr_le by simp
    then show ?thesis using None by (simp add: ev1_def ws_def)
  next
    case (Some a)
    obtain wn j where a: "a = (wn, j)" by (cases a)
    have f: "find_waitlist tn 0 (waitlist ev) = Some (wn, j)" using Some a by simp
    have "lower wn = tn" using find_waitlist_index[OF f] by simp
    then have wn: "wn \<noteq> []" using tn by (auto simp: lower_def)
    have single: "ws = snd (waitlist ev ! j)"
      unfolding ws_def using waitlist_total_single[OF f one] by simp
    show ?thesis
    proof (cases "waitlist_reduction > 0")
      case False
      then have "waitlist_reduction = 0" using wr_le by simp
      then show ?thesis using f by (simp add: ev1_def ws_def)
    next
      case True
      show ?thesis
      proof (cases "ws - waitlist_reduction > 0")
        case p: True
        have "waitlist_total tn ((waitlist ev)[j := (wn, ws - waitlist_reduction)]) =
              waitlist_total tn (waitlist ev) - snd (waitlist ev ! j) + (ws - waitlist_reduction)"
          using waitlist_total_update[OF f, of "ws - waitlist_reduction"] by simp
        then show ?thesis using f True wn p single by (simp add: ev1_def ws_def)
      next
        case False
        then have z: "ws - waitlist_reduction = 0" using wr_le by simp
        have "waitlist_total tn (list_pop j (waitlist ev)) =
              waitlist_total tn (waitlist ev) - snd (waitlist ev ! j)"
          using waitlist_total_list_pop[OF f] by simp
        then show ?thesis using f True wn False single z by (simp add: ev1_def ws_def)
      qed
    qed
  qed
  have wl': "waitlist ev' = waitlist ev1"
    unfolding d by (simp split: option.splits)
  have r: "roster_size tn (teams ev') = es - event_reduction \<and>
           slots_used ev' = slots_used ev - event_reduction"
  proof (cases "find_item tn (teams ev)")
    case None
    then have "es = 0" by (simp add: es_def roster_size_def)
    then have "event_reduction = 0" using er_cases ns by auto
    then show ?thesis using None f1 unfolding d by (simp add: es_def roster_size_def)
  next
    case (Some a)
    obtain rn v where a: "a = (rn, v)" by (cases a)
    have f: "find_item tn (teams ev) = Some (rn, v)" using Some a by simp
    have rn: "rn \<noteq> []" by (rule find_item_nonempty[OF f tn])
    have esv: "es = v" using f by (simp add: es_def roster_size_def)
    show ?thesis
    proof (cases "event_reduction > 0")
      case False
      then have "event_reduction = 0" using er_cases by auto
      then show ?thesis using f f1 esv unfolding d by (simp add: roster_size_def)
    next
      case True
      then have "es - event_reduction = new_size" using er_cases by auto
      then show ?thesis
        using f f1 True rn ns unfolding d
        by (simp add: roster_size_def find_item_dict_set_found)
    qed
  qed
  have u: "update_team_size ia team_name new_size is_admin s =
           Inr (True,
                if event_reduction > 0 then
                  process_waitlist_after_change event_reduction (s\<lparr>event_data := Some ev'\<rparr>)
                else s\<lparr>event_data := Some ev'\<rparr>)"
    using update_team_size_decrease[OF cp g ns lt[unfolded es_def ws_def tn_def]]
    unfolding ev'_def er[symmetric] es_def ws_def tn_def .
  show ?thesis using w1 wl' r u by simp
qed

end
